theory Spec2Isabelle
  imports Complex_Main "HOL-Library.Log_Nat" "HOL-Library.Multiset"
begin

section \<open>Python floats\<close>

text \<open>
  The payoff engine computes with Python \<^verbatim>\<open>float\<close>s, that is IEEE-754 binary64
  numbers under round-to-nearest, ties-to-even. A float is modelled by the rational it
  denotes, or one of the three special values. The two signed zeros are the one value
  \<open>Fin 0\<close>: the engine never divides by a float and never inspects a sign bit, and
  \<^verbatim>\<open>-0.0 == 0.0\<close> holds in Python.
\<close>

datatype pyfloat = Fin rat | PInf | NInf | NaN

text \<open>\<open>ilog2 x\<close> is the binary exponent of a positive rational: \<open>2^ilog2 x \<le> x < 2^(ilog2 x + 1)\<close>.\<close>

definition ilog2 :: "rat \<Rightarrow> int" where
  "ilog2 x = (case quotient_of x of (p, q) \<Rightarrow>
     (let d = bitlen p - bitlen q in if 2 powi d \<le> x then d else d - 1))"

text \<open>Rounding a rational to the nearest integer, ties to the even one.\<close>

definition rhe :: "rat \<Rightarrow> int" where
  "rhe x = (let f = \<lfloor>x\<rfloor>; d = x - of_int f in
     if d < 1 / 2 then f else if 1 / 2 < d then f + 1 else if even f then f else f + 1)"

text \<open>
  \<open>fl x\<close> is the binary64 number nearest to \<open>x\<close>: 53 significant bits with the
  exponent \<open>fexp x\<close> of the last bit, which is at least \<open>-1074\<close> (subnormals), and
  overflow to an infinity when the rounded value reaches \<open>2^1024\<close>.
\<close>

definition fexp :: "rat \<Rightarrow> int" where
  "fexp x = max (ilog2 \<bar>x\<bar> - 52) (- 1074)"

definition overflow_threshold :: rat where
  "overflow_threshold = 2 powi 1024"

definition fl :: "rat \<Rightarrow> pyfloat" where
  "fl x = (if x = 0 then Fin 0 else
     (let y = of_int (rhe (x / 2 powi fexp x)) * 2 powi fexp x
      in if overflow_threshold \<le> \<bar>y\<bar> then (if 0 < x then PInf else NInf) else Fin y))"

fun fneg :: "pyfloat \<Rightarrow> pyfloat" where
  "fneg (Fin x) = Fin (- x)"
| "fneg PInf = NInf"
| "fneg NInf = PInf"
| "fneg NaN = NaN"

fun fadd :: "pyfloat \<Rightarrow> pyfloat \<Rightarrow> pyfloat" where
  "fadd (Fin x) (Fin y) = fl (x + y)"
| "fadd NaN b = NaN"
| "fadd a NaN = NaN"
| "fadd PInf NInf = NaN"
| "fadd NInf PInf = NaN"
| "fadd PInf b = PInf"
| "fadd NInf b = NInf"
| "fadd (Fin x) b = b"

definition fsub :: "pyfloat \<Rightarrow> pyfloat \<Rightarrow> pyfloat" where
  "fsub a b = fadd a (fneg b)"

text \<open>The sign of a float that is not a NaN, as \<open>-1\<close>, \<open>0\<close> or \<open>1\<close>.\<close>

fun fsgn :: "pyfloat \<Rightarrow> int" where
  "fsgn (Fin x) = (if x < 0 then - 1 else if x = 0 then 0 else 1)"
| "fsgn PInf = 1"
| "fsgn NInf = - 1"
| "fsgn NaN = 0"

fun fmul :: "pyfloat \<Rightarrow> pyfloat \<Rightarrow> pyfloat" where
  "fmul (Fin x) (Fin y) = fl (x * y)"
| "fmul NaN b = NaN"
| "fmul a NaN = NaN"
| "fmul a b = (if fsgn a * fsgn b = 0 then NaN else if fsgn a * fsgn b = 1 then PInf else NInf)"

text \<open>
  Float division. Python raises before it divides by zero (see \<open>py_truediv_int\<close>), so
  the value chosen here for a zero divisor is never used.
\<close>

fun fdiv :: "pyfloat \<Rightarrow> pyfloat \<Rightarrow> pyfloat" where
  "fdiv (Fin x) (Fin y) = (if y = 0 then NaN else fl (x / y))"
| "fdiv NaN b = NaN"
| "fdiv a NaN = NaN"
| "fdiv (Fin x) b = Fin 0"
| "fdiv a (Fin y) = (if fsgn a * fsgn (Fin y) = 0 then NaN else if fsgn a * fsgn (Fin y) = 1 then PInf else NInf)"
| "fdiv a b = NaN"

text \<open>Comparisons: every comparison with a NaN is false.\<close>

fun flt :: "pyfloat \<Rightarrow> pyfloat \<Rightarrow> bool" where
  "flt (Fin x) (Fin y) = (x < y)"
| "flt NaN b = False"
| "flt a NaN = False"
| "flt a NInf = False"
| "flt PInf b = False"
| "flt a b = True"

definition fle :: "pyfloat \<Rightarrow> pyfloat \<Rightarrow> bool" where
  "fle a b = (flt a b \<or> (a = b \<and> a \<noteq> NaN))"

definition fgt :: "pyfloat \<Rightarrow> pyfloat \<Rightarrow> bool" where
  "fgt a b = flt b a"

text \<open>
  \<^verbatim>\<open>max(0, x)\<close>: the builtin keeps its first argument unless a later one is greater.
\<close>

definition py_max0 :: "pyfloat \<Rightarrow> pyfloat" where
  "py_max0 x = (if fgt x (Fin 0) then x else Fin 0)"

text \<open>
  \<^verbatim>\<open>round(x, 2)\<close>: the exact value of \<open>x\<close> is rounded to two decimals, ties to even,
  and the decimal is converted back to the nearest float; infinities and NaN are returned
  as they are.
\<close>

fun py_round2 :: "pyfloat \<Rightarrow> pyfloat" where
  "py_round2 (Fin x) = fl (of_int (rhe (x * 100)) / 100)"
| "py_round2 a = a"

section \<open>Python values, exceptions and \<^verbatim>\<open>float()\<close>\<close>

datatype py_error =
    ZeroDivisionError
  | OverflowError
  | TypeError
  | FloatValueError string
  | ValueError string

text \<open>
  \<open>FloatValueError s\<close> is the \<^verbatim>\<open>ValueError\<close> that \<^verbatim>\<open>float(s)\<close> raises for a string it
  cannot read (its message is \<^verbatim>\<open>could not convert string to float:\<close> followed by the
  quoted string); \<open>ValueError m\<close> is a \<^verbatim>\<open>ValueError\<close> raised by the engine itself with
  message \<open>m\<close>.
\<close>

datatype pyval = PyInt int | PyFloat pyfloat | PyStr string | PyNone

type_synonym pydict = "string \<rightharpoonup> pyval"

definition bindE :: "py_error + 'a \<Rightarrow> ('a \<Rightarrow> py_error + 'b) \<Rightarrow> py_error + 'b" where
  "bindE m f = (case m of Inl e \<Rightarrow> Inl e | Inr a \<Rightarrow> f a)"

fun mapE :: "('a \<Rightarrow> py_error + 'b) \<Rightarrow> 'a list \<Rightarrow> py_error + 'b list" where
  "mapE f [] = Inr []"
| "mapE f (x # xs) = bindE (f x) (\<lambda>y. bindE (mapE f xs) (\<lambda>ys. Inr (y # ys)))"

fun foldE :: "('b \<Rightarrow> 'a \<Rightarrow> py_error + 'b) \<Rightarrow> 'b \<Rightarrow> 'a list \<Rightarrow> py_error + 'b" where
  "foldE f s [] = Inr s"
| "foldE f s (x # xs) = bindE (f s x) (\<lambda>s'. foldE f s' xs)"

text \<open>Converting a Python \<^verbatim>\<open>int\<close> to a float rounds correctly and raises on overflow.\<close>

definition int_to_float :: "int \<Rightarrow> py_error + pyfloat" where
  "int_to_float i = (case fl (of_int i) of Fin y \<Rightarrow> Inr (Fin y) | _ \<Rightarrow> Inl OverflowError)"

text \<open>\<^verbatim>\<open>a / n\<close> for a float \<open>a\<close> and an \<^verbatim>\<open>int\<close> \<open>n\<close>.\<close>

definition py_truediv_int :: "pyfloat \<Rightarrow> int \<Rightarrow> py_error + pyfloat" where
  "py_truediv_int a n =
     bindE (int_to_float n) (\<lambda>b. if b = Fin 0 then Inl ZeroDivisionError else Inr (fdiv a b))"

text \<open>
  \<^verbatim>\<open>float(v)\<close>. How Python reads a string as a float (its grammar, with \<^verbatim>\<open>inf\<close> and
  \<^verbatim>\<open>nan\<close>) is the parameter \<open>sf\<close>: \<open>sf s = None\<close> when the string is not a number.
\<close>

fun py_float :: "(string \<Rightarrow> pyfloat option) \<Rightarrow> pyval \<Rightarrow> py_error + pyfloat" where
  "py_float sf (PyFloat a) = Inr a"
| "py_float sf (PyInt i) = int_to_float i"
| "py_float sf (PyStr s) = (case sf s of Some a \<Rightarrow> Inr a | None \<Rightarrow> Inl (FloatValueError s))"
| "py_float sf PyNone = Inl TypeError"

text \<open>\<^verbatim>\<open>d.get(k, default)\<close>\<close>

definition dict_get :: "pydict \<Rightarrow> string \<Rightarrow> pyval \<Rightarrow> pyval" where
  "dict_get d k dflt = (case d k of Some v \<Rightarrow> v | None \<Rightarrow> dflt)"

section \<open>The payoff calculator\<close>

record PayoffDataPoint =
  price :: pyfloat
  pnl :: pyfloat

subsection \<open>Price grid\<close>

definition calculate_price_range :: "pyfloat \<Rightarrow> pyfloat \<Rightarrow> int \<Rightarrow> py_error + pyfloat list" where
  "calculate_price_range underlying_price price_range_percent num_points =
     (let min_price = fmul underlying_price (fsub (Fin 1) (fdiv price_range_percent (Fin 100)));
          max_price = fmul underlying_price (fadd (Fin 1) (fdiv price_range_percent (Fin 100)))
      in bindE (py_truediv_int (fsub max_price min_price) (num_points - 1)) (\<lambda>step.
           mapE (\<lambda>i. bindE (int_to_float i) (\<lambda>fi. Inr (fadd min_price (fmul step fi))))
             [0 .. num_points - 1]))"

subsection \<open>Fixed strategies\<close>

text \<open>
  Each calculator reads its parameters with \<^verbatim>\<open>float(parameters.get(key, default))\<close> in
  the order of the source, builds the 50-point grid, and runs a loop over the prices
  that appends one point per price to \<open>payoff_data\<close>.
\<close>

definition calculate_covered_call ::
  "(string \<Rightarrow> pyfloat option) \<Rightarrow> pydict \<Rightarrow> pyfloat \<Rightarrow> pyfloat \<Rightarrow> py_error + PayoffDataPoint list" where
  "calculate_covered_call sf parameters underlying_price price_range_percent =
     bindE (py_float sf (dict_get parameters ''futuresPrice'' (PyFloat underlying_price))) (\<lambda>futures_price.
     bindE (py_float sf (dict_get parameters ''callStrike'' (PyFloat (fadd underlying_price (Fin 500))))) (\<lambda>call_strike.
     bindE (py_float sf (dict_get parameters ''premium'' (PyInt 200))) (\<lambda>premium.
     bindE (py_float sf (dict_get parameters ''futuresLotSize'' (PyInt 50))) (\<lambda>futures_lot_size.
     bindE (py_float sf (dict_get parameters ''callLotSize'' (PyInt 50))) (\<lambda>call_lot_size.
     bindE (calculate_price_range underlying_price price_range_percent 50) (\<lambda>price_points.
     Inr (foldl (\<lambda>payoff_data p.
       (let futures_pnl = fmul (fsub p futures_price) futures_lot_size;
            call_pnl = (if fle p call_strike then fmul premium call_lot_size
                        else fmul (fsub premium (fsub p call_strike)) call_lot_size);
            total_pnl = fadd futures_pnl call_pnl
        in payoff_data @ [\<lparr>price = py_round2 p, pnl = py_round2 total_pnl\<rparr>]))
       [] price_points)))))))"

definition calculate_bull_call_spread ::
  "(string \<Rightarrow> pyfloat option) \<Rightarrow> pydict \<Rightarrow> pyfloat \<Rightarrow> pyfloat \<Rightarrow> py_error + PayoffDataPoint list" where
  "calculate_bull_call_spread sf parameters underlying_price price_range_percent =
     bindE (py_float sf (dict_get parameters ''longCallStrike'' (PyFloat underlying_price))) (\<lambda>long_call_strike.
     bindE (py_float sf (dict_get parameters ''shortCallStrike'' (PyFloat (fadd underlying_price (Fin 1000))))) (\<lambda>short_call_strike.
     bindE (py_float sf (dict_get parameters ''longCallPremium'' (PyInt 300))) (\<lambda>long_call_premium.
     bindE (py_float sf (dict_get parameters ''shortCallPremium'' (PyInt 150))) (\<lambda>short_call_premium.
     bindE (py_float sf (dict_get parameters ''lotSize'' (PyInt 50))) (\<lambda>lot_size.
     (let net_debit = fsub long_call_premium short_call_premium in
     bindE (calculate_price_range underlying_price price_range_percent 50) (\<lambda>price_points.
     Inr (foldl (\<lambda>payoff_data p.
       (let long_call_pnl = (if fle p long_call_strike then fneg long_call_premium
                             else fsub (fsub p long_call_strike) long_call_premium);
            short_call_pnl = (if fle p short_call_strike then short_call_premium
                              else fsub short_call_premium (fsub p short_call_strike));
            total_pnl = fmul (fadd long_call_pnl short_call_pnl) lot_size
        in payoff_data @ [\<lparr>price = py_round2 p, pnl = py_round2 total_pnl\<rparr>]))
       [] price_points))))))))"

definition calculate_iron_condor ::
  "(string \<Rightarrow> pyfloat option) \<Rightarrow> pydict \<Rightarrow> pyfloat \<Rightarrow> pyfloat \<Rightarrow> py_error + PayoffDataPoint list" where
  "calculate_iron_condor sf parameters underlying_price price_range_percent =
     bindE (py_float sf (dict_get parameters ''lotSize'' (PyInt 50))) (\<lambda>lot_size.
     bindE (py_float sf (dict_get parameters ''putBuyStrike'' (PyFloat (fsub underlying_price (Fin 1000))))) (\<lambda>put_buy_strike.
     bindE (py_float sf (dict_get parameters ''putSellStrike'' (PyFloat (fsub underlying_price (Fin 500))))) (\<lambda>put_sell_strike.
     bindE (py_float sf (dict_get parameters ''callSellStrike'' (PyFloat (fadd underlying_price (Fin 500))))) (\<lambda>call_sell_strike.
     bindE (py_float sf (dict_get parameters ''callBuyStrike'' (PyFloat (fadd underlying_price (Fin 1000))))) (\<lambda>call_buy_strike.
     bindE (py_float sf (dict_get parameters ''netPremium'' (PyInt 100))) (\<lambda>net_premium.
     bindE (calculate_price_range underlying_price price_range_percent 50) (\<lambda>price_points.
     Inr (foldl (\<lambda>payoff_data p.
       (let pnl0 = net_premium;
            pnl1 = (if flt p put_buy_strike
                      then fsub pnl0 (fsub (fsub put_buy_strike p) (fsub put_sell_strike p))
                    else if flt p put_sell_strike then fsub pnl0 (fsub put_sell_strike p)
                    else pnl0);
            pnl2 = (if fgt p call_buy_strike
                      then fsub pnl1 (fsub (fsub p call_buy_strike) (fsub p call_sell_strike))
                    else if fgt p call_sell_strike then fsub pnl1 (fsub p call_sell_strike)
                    else pnl1);
            total_pnl = fmul pnl2 lot_size
        in payoff_data @ [\<lparr>price = py_round2 p, pnl = py_round2 total_pnl\<rparr>]))
       [] price_points))))))))"

definition calculate_long_straddle ::
  "(string \<Rightarrow> pyfloat option) \<Rightarrow> pydict \<Rightarrow> pyfloat \<Rightarrow> pyfloat \<Rightarrow> py_error + PayoffDataPoint list" where
  "calculate_long_straddle sf parameters underlying_price price_range_percent =
     bindE (py_float sf (dict_get parameters ''strike'' (PyFloat underlying_price))) (\<lambda>strike.
     bindE (py_float sf (dict_get parameters ''callPremium'' (PyInt 300))) (\<lambda>call_premium.
     bindE (py_float sf (dict_get parameters ''putPremium'' (PyInt 300))) (\<lambda>put_premium.
     bindE (py_float sf (dict_get parameters ''lotSize'' (PyInt 50))) (\<lambda>lot_size.
     (let total_premium_paid = fadd call_premium put_premium in
     bindE (calculate_price_range underlying_price price_range_percent 50) (\<lambda>price_points.
     Inr (foldl (\<lambda>payoff_data p.
       (let call_pnl = fsub (py_max0 (fsub p strike)) call_premium;
            put_pnl = fsub (py_max0 (fsub strike p)) put_premium;
            total_pnl = fmul (fadd call_pnl put_pnl) lot_size
        in payoff_data @ [\<lparr>price = py_round2 p, pnl = py_round2 total_pnl\<rparr>]))
       [] price_points)))))))"

definition calculate_protective_put ::
  "(string \<Rightarrow> pyfloat option) \<Rightarrow> pydict \<Rightarrow> pyfloat \<Rightarrow> pyfloat \<Rightarrow> py_error + PayoffDataPoint list" where
  "calculate_protective_put sf parameters underlying_price price_range_percent =
     bindE (py_float sf (dict_get parameters ''stockPrice'' (PyFloat underlying_price))) (\<lambda>stock_price.
     bindE (py_float sf (dict_get parameters ''putStrike'' (PyFloat (fsub underlying_price (Fin 500))))) (\<lambda>put_strike.
     bindE (py_float sf (dict_get parameters ''putPremium'' (PyInt 200))) (\<lambda>put_premium.
     bindE (py_float sf (dict_get parameters ''lotSize'' (PyInt 50))) (\<lambda>lot_size.
     bindE (calculate_price_range underlying_price price_range_percent 50) (\<lambda>price_points.
     Inr (foldl (\<lambda>payoff_data p.
       (let stock_pnl = fsub p stock_price;
            put_pnl = fsub (py_max0 (fsub put_strike p)) put_premium;
            total_pnl = fmul (fadd stock_pnl put_pnl) lot_size
        in payoff_data @ [\<lparr>price = py_round2 p, pnl = py_round2 total_pnl\<rparr>]))
       [] price_points))))))"

definition calculate_butterfly_spread ::
  "(string \<Rightarrow> pyfloat option) \<Rightarrow> pydict \<Rightarrow> pyfloat \<Rightarrow> pyfloat \<Rightarrow> py_error + PayoffDataPoint list" where
  "calculate_butterfly_spread sf parameters underlying_price price_range_percent =
     bindE (py_float sf (dict_get parameters ''lowerStrike'' (PyFloat (fsub underlying_price (Fin 500))))) (\<lambda>lower_strike.
     bindE (py_float sf (dict_get parameters ''middleStrike'' (PyFloat underlying_price))) (\<lambda>middle_strike.
     bindE (py_float sf (dict_get parameters ''upperStrike'' (PyFloat (fadd underlying_price (Fin 500))))) (\<lambda>upper_strike.
     bindE (py_float sf (dict_get parameters ''lowerPremium'' (PyInt 300))) (\<lambda>lower_premium.
     bindE (py_float sf (dict_get parameters ''middlePremium'' (PyInt 200))) (\<lambda>middle_premium.
     bindE (py_float sf (dict_get parameters ''upperPremium'' (PyInt 100))) (\<lambda>upper_premium.
     bindE (py_float sf (dict_get parameters ''lotSize'' (PyInt 50))) (\<lambda>lot_size.
     bindE (calculate_price_range underlying_price price_range_percent 50) (\<lambda>price_points.
     Inr (foldl (\<lambda>payoff_data p.
       (let lower_pnl = fsub (py_max0 (fsub p lower_strike)) lower_premium;
            middle_pnl = fmul (fsub middle_premium (py_max0 (fsub p middle_strike))) (Fin 2);
            upper_pnl = fsub (py_max0 (fsub p upper_strike)) upper_premium;
            total_pnl = fmul (fadd (fadd lower_pnl middle_pnl) upper_pnl) lot_size
        in payoff_data @ [\<lparr>price = py_round2 p, pnl = py_round2 total_pnl\<rparr>]))
       [] price_points)))))))))"

subsection \<open>Custom multi-leg strategy\<close>

text \<open>
  The body of the inner loop: the P&L of one leg at one price. The conversions of the
  leg's fields happen here, for every price and every leg, and may raise.
\<close>

definition leg_pnl ::
  "(string \<Rightarrow> pyfloat option) \<Rightarrow> pyfloat \<Rightarrow> pyfloat \<Rightarrow> pydict \<Rightarrow> py_error + pyfloat" where
  "leg_pnl sf underlying_price p leg =
     (let leg_type = leg ''type''; action = leg ''action'' in
      bindE (py_float sf (dict_get leg ''lotSize'' (PyInt 0))) (\<lambda>lot_size.
      if leg_type = Some (PyStr ''FUT'') then
        bindE (py_float sf (dict_get leg ''entryPrice'' (PyFloat underlying_price))) (\<lambda>entry_price.
        Inr (if action = Some (PyStr ''BUY'') then fmul (fsub p entry_price) lot_size
             else fmul (fsub entry_price p) lot_size))
      else
        bindE (py_float sf (dict_get leg ''strike'' (PyFloat underlying_price))) (\<lambda>strike.
        bindE (py_float sf (dict_get leg ''premium'' (PyInt 0))) (\<lambda>premium.
        (let intrinsic = (if leg_type = Some (PyStr ''CE'') then py_max0 (fsub p strike)
                          else py_max0 (fsub strike p))
         in Inr (if action = Some (PyStr ''BUY'') then fmul (fsub intrinsic premium) lot_size
                 else fmul (fsub premium intrinsic) lot_size))))))"

definition calculate_custom_strategy ::
  "(string \<Rightarrow> pyfloat option) \<Rightarrow> pydict list \<Rightarrow> pyfloat \<Rightarrow> pyfloat \<Rightarrow> py_error + PayoffDataPoint list" where
  "calculate_custom_strategy sf custom_legs underlying_price price_range_percent =
     bindE (calculate_price_range underlying_price price_range_percent 50) (\<lambda>price_points.
     foldE (\<lambda>payoff_data p.
       bindE (foldE (\<lambda>total_pnl leg.
                bindE (leg_pnl sf underlying_price p leg) (\<lambda>l. Inr (fadd total_pnl l)))
              (Fin 0) custom_legs) (\<lambda>total_pnl.
       Inr (payoff_data @ [\<lparr>price = py_round2 p, pnl = py_round2 total_pnl\<rparr>])))
       [] price_points)"

subsection \<open>Dispatcher\<close>

definition strategy_calculators ::
  "string \<rightharpoonup> ((string \<Rightarrow> pyfloat option) \<Rightarrow> pydict \<Rightarrow> pyfloat \<Rightarrow> pyfloat \<Rightarrow> py_error + PayoffDataPoint list)" where
  "strategy_calculators = map_of
     [(''covered-call'', calculate_covered_call),
      (''bull-call-spread'', calculate_bull_call_spread),
      (''iron-condor'', calculate_iron_condor),
      (''long-straddle'', calculate_long_straddle),
      (''protective-put'', calculate_protective_put),
      (''butterfly-spread'', calculate_butterfly_spread)]"

definition calculate_payoff ::
  "(string \<Rightarrow> pyfloat option) \<Rightarrow> string \<Rightarrow> pydict option \<Rightarrow> pyfloat \<Rightarrow> pyfloat \<Rightarrow> pydict list option
     \<Rightarrow> py_error + PayoffDataPoint list" where
  "calculate_payoff sf strategy_type parameters0 underlying_price price_range_percent custom_legs =
     (let parameters = (case parameters0 of None \<Rightarrow> Map.empty | Some d \<Rightarrow> d) in
      if strategy_type = ''custom-strategy'' then
        (case custom_legs of
           None \<Rightarrow> Inr []
         | Some [] \<Rightarrow> Inr []
         | Some legs \<Rightarrow> calculate_custom_strategy sf legs underlying_price price_range_percent)
      else
        (case strategy_calculators strategy_type of
           None \<Rightarrow> Inl (ValueError (''Unknown strategy type: '' @ strategy_type))
         | Some calculator \<Rightarrow> calculator sf parameters underlying_price price_range_percent))"

subsection \<open>Endpoint\<close>

text \<open>
  The endpoint \<^verbatim>\<open>/payoff/calculate\<close> answers a \<^verbatim>\<open>ValueError\<close> of the calculation with
  status 400 and every other exception with status 500; the detail of the answer is the
  message of the exception, which is kept here as the exception itself.
\<close>

definition is_ValueError :: "py_error \<Rightarrow> bool" where
  "is_ValueError e = (case e of FloatValueError s \<Rightarrow> True | ValueError m \<Rightarrow> True | _ \<Rightarrow> False)"

definition calculate_payoff_endpoint ::
  "(string \<Rightarrow> pyfloat option) \<Rightarrow> string \<Rightarrow> pydict option \<Rightarrow> pyfloat \<Rightarrow> pyfloat \<Rightarrow> pydict list option
     \<Rightarrow> (nat \<times> py_error) + PayoffDataPoint list" where
  "calculate_payoff_endpoint sf strategy_type parameters underlying_price price_range_percent custom_legs =
     (case calculate_payoff sf strategy_type parameters underlying_price price_range_percent custom_legs of
        Inr payoff_data \<Rightarrow> Inr payoff_data
      | Inl e \<Rightarrow> Inl (if is_ValueError e then 400 else 500, e))"

section \<open>The quantities named in the specification\<close>

subsection \<open>Grid\<close>

text \<open>
  The specification's \<open>minPrice\<close>, \<open>maxPrice\<close> and \<open>step\<close>, computed in float arithmetic
  in the order the formulas are written.
\<close>

definition minPrice :: "pyfloat \<Rightarrow> pyfloat \<Rightarrow> pyfloat" where
  "minPrice underlyingPrice rangePercent =
     fmul underlyingPrice (fsub (Fin 1) (fdiv rangePercent (Fin 100)))"

definition maxPrice :: "pyfloat \<Rightarrow> pyfloat \<Rightarrow> pyfloat" where
  "maxPrice underlyingPrice rangePercent =
     fmul underlyingPrice (fadd (Fin 1) (fdiv rangePercent (Fin 100)))"

definition step :: "pyfloat \<Rightarrow> pyfloat \<Rightarrow> int \<Rightarrow> pyfloat" where
  "step underlyingPrice rangePercent pointCount =
     fdiv (fsub (maxPrice underlyingPrice rangePercent) (minPrice underlyingPrice rangePercent))
       (Fin (of_int (pointCount - 1)))"

text \<open>The grid of the 50 prices that every calculator evaluates.\<close>

definition grid :: "pyfloat \<Rightarrow> pyfloat \<Rightarrow> pyfloat list" where
  "grid underlyingPrice rangePercent =
     map (\<lambda>i. fadd (minPrice underlyingPrice rangePercent)
                 (fmul (step underlyingPrice rangePercent 50) (Fin (of_int i)))) [0 .. 49]"

subsection \<open>Per-price formulas of the fixed strategies\<close>

text \<open>
  The formulas of the specification's table, one per strategy, as functions of the
  strategy's parameters and the price \<open>p\<close>.
\<close>

definition covered_call_pnl ::
  "pyfloat \<Rightarrow> pyfloat \<Rightarrow> pyfloat \<Rightarrow> pyfloat \<Rightarrow> pyfloat \<Rightarrow> pyfloat \<Rightarrow> pyfloat" where
  "covered_call_pnl futuresPrice callStrike premium futLot callLot p =
     (let futPnl = fmul (fsub p futuresPrice) futLot;
          callPnl = (if fle p callStrike then fmul premium callLot
                     else fmul (fsub premium (fsub p callStrike)) callLot)
      in fadd futPnl callPnl)"

definition bull_call_spread_pnl ::
  "pyfloat \<Rightarrow> pyfloat \<Rightarrow> pyfloat \<Rightarrow> pyfloat \<Rightarrow> pyfloat \<Rightarrow> pyfloat \<Rightarrow> pyfloat" where
  "bull_call_spread_pnl longCallStrike shortCallStrike longCallPremium shortCallPremium lotSize p =
     (let long = (if fle p longCallStrike then fneg longCallPremium
                  else fsub (fsub p longCallStrike) longCallPremium);
          short = (if fle p shortCallStrike then shortCallPremium
                   else fsub shortCallPremium (fsub p shortCallStrike))
      in fmul (fadd long short) lotSize)"

definition iron_condor_pnl ::
  "pyfloat \<Rightarrow> pyfloat \<Rightarrow> pyfloat \<Rightarrow> pyfloat \<Rightarrow> pyfloat \<Rightarrow> pyfloat \<Rightarrow> pyfloat \<Rightarrow> pyfloat" where
  "iron_condor_pnl putBuyStrike putSellStrike callSellStrike callBuyStrike netPremium lotSize p =
     (let a = netPremium;
          b = (if flt p putBuyStrike
                 then fsub a (fsub (fsub putBuyStrike p) (fsub putSellStrike p))
               else if flt p putSellStrike then fsub a (fsub putSellStrike p)
               else a);
          c = (if fgt p callBuyStrike
                 then fsub b (fsub (fsub p callBuyStrike) (fsub p callSellStrike))
               else if fgt p callSellStrike then fsub b (fsub p callSellStrike)
               else b)
      in fmul c lotSize)"

definition long_straddle_pnl ::
  "pyfloat \<Rightarrow> pyfloat \<Rightarrow> pyfloat \<Rightarrow> pyfloat \<Rightarrow> pyfloat \<Rightarrow> pyfloat" where
  "long_straddle_pnl strike callPremium putPremium lotSize p =
     (let callPnl = fsub (py_max0 (fsub p strike)) callPremium;
          putPnl = fsub (py_max0 (fsub strike p)) putPremium
      in fmul (fadd callPnl putPnl) lotSize)"

definition protective_put_pnl ::
  "pyfloat \<Rightarrow> pyfloat \<Rightarrow> pyfloat \<Rightarrow> pyfloat \<Rightarrow> pyfloat \<Rightarrow> pyfloat" where
  "protective_put_pnl stockPrice putStrike putPremium lotSize p =
     (let stockPnl = fsub p stockPrice;
          putPnl = fsub (py_max0 (fsub putStrike p)) putPremium
      in fmul (fadd stockPnl putPnl) lotSize)"

definition butterfly_spread_pnl ::
  "pyfloat \<Rightarrow> pyfloat \<Rightarrow> pyfloat \<Rightarrow> pyfloat \<Rightarrow> pyfloat \<Rightarrow> pyfloat \<Rightarrow> pyfloat \<Rightarrow> pyfloat \<Rightarrow> pyfloat" where
  "butterfly_spread_pnl lowerStrike middleStrike upperStrike lowerPremium middlePremium upperPremium lotSize p =
     (let lowerPnl = fsub (py_max0 (fsub p lowerStrike)) lowerPremium;
          middlePnl = fmul (fsub middlePremium (py_max0 (fsub p middleStrike))) (Fin 2);
          upperPnl = fsub (py_max0 (fsub p upperStrike)) upperPremium
      in fmul (fadd (fadd lowerPnl middlePnl) upperPnl) lotSize)"

subsection \<open>Strategy identifiers and their parameters\<close>

definition fixed_strategies :: "string list" where
  "fixed_strategies =
     [''covered-call'', ''bull-call-spread'', ''iron-condor'', ''long-straddle'',
      ''protective-put'', ''butterfly-spread'']"

text \<open>
  The recognised keys of each fixed strategy with their defaults (\<open>U\<close> is the underlying
  price), in the order in which the calculator reads them.
\<close>

definition fixed_parameters :: "string \<Rightarrow> pyfloat \<Rightarrow> (string \<times> pyval) list" where
  "fixed_parameters strategyType U =
     (if strategyType = ''covered-call'' then
        [(''futuresPrice'', PyFloat U), (''callStrike'', PyFloat (fadd U (Fin 500))),
         (''premium'', PyInt 200), (''futuresLotSize'', PyInt 50), (''callLotSize'', PyInt 50)]
      else if strategyType = ''bull-call-spread'' then
        [(''longCallStrike'', PyFloat U), (''shortCallStrike'', PyFloat (fadd U (Fin 1000))),
         (''longCallPremium'', PyInt 300), (''shortCallPremium'', PyInt 150), (''lotSize'', PyInt 50)]
      else if strategyType = ''iron-condor'' then
        [(''lotSize'', PyInt 50), (''putBuyStrike'', PyFloat (fsub U (Fin 1000))),
         (''putSellStrike'', PyFloat (fsub U (Fin 500))),
         (''callSellStrike'', PyFloat (fadd U (Fin 500))),
         (''callBuyStrike'', PyFloat (fadd U (Fin 1000))), (''netPremium'', PyInt 100)]
      else if strategyType = ''long-straddle'' then
        [(''strike'', PyFloat U), (''callPremium'', PyInt 300), (''putPremium'', PyInt 300),
         (''lotSize'', PyInt 50)]
      else if strategyType = ''protective-put'' then
        [(''stockPrice'', PyFloat U), (''putStrike'', PyFloat (fsub U (Fin 500))),
         (''putPremium'', PyInt 200), (''lotSize'', PyInt 50)]
      else if strategyType = ''butterfly-spread'' then
        [(''lowerStrike'', PyFloat (fsub U (Fin 500))), (''middleStrike'', PyFloat U),
         (''upperStrike'', PyFloat (fadd U (Fin 500))), (''lowerPremium'', PyInt 300),
         (''middlePremium'', PyInt 200), (''upperPremium'', PyInt 100), (''lotSize'', PyInt 50)]
      else [])"

text \<open>Reading the parameters: the first conversion that fails decides the exception.\<close>

definition read_parameters ::
  "(string \<Rightarrow> pyfloat option) \<Rightarrow> pydict \<Rightarrow> (string \<times> pyval) list \<Rightarrow> py_error + pyfloat list" where
  "read_parameters sf parameters specs =
     mapE (\<lambda>(k, d). py_float sf (dict_get parameters k d)) specs"

text \<open>The formula of a fixed strategy applied to the values read, in reading order.\<close>

definition fixed_pnl :: "string \<Rightarrow> pyfloat list \<Rightarrow> pyfloat \<Rightarrow> pyfloat" where
  "fixed_pnl strategyType vs p =
     (if strategyType = ''covered-call'' then
        covered_call_pnl (vs ! 0) (vs ! 1) (vs ! 2) (vs ! 3) (vs ! 4) p
      else if strategyType = ''bull-call-spread'' then
        bull_call_spread_pnl (vs ! 0) (vs ! 1) (vs ! 2) (vs ! 3) (vs ! 4) p
      else if strategyType = ''iron-condor'' then
        iron_condor_pnl (vs ! 1) (vs ! 2) (vs ! 3) (vs ! 4) (vs ! 5) (vs ! 0) p
      else if strategyType = ''long-straddle'' then
        long_straddle_pnl (vs ! 0) (vs ! 1) (vs ! 2) (vs ! 3) p
      else if strategyType = ''protective-put'' then
        protective_put_pnl (vs ! 0) (vs ! 1) (vs ! 2) (vs ! 3) p
      else butterfly_spread_pnl (vs ! 0) (vs ! 1) (vs ! 2) (vs ! 3) (vs ! 4) (vs ! 5) (vs ! 6) p)"

subsection \<open>Custom legs\<close>

text \<open>
  A leg of the specification: a future with its action, lot size and entry price, or an
  option with its kind, action, lot size, strike and premium. \<open>legPnl\<close> is the
  specification's P&L of one leg at one price; \<open>read_leg\<close> is how the evaluator reads a
  leg from the mapping it is given: the lot size first, then the fields of the leg's type,
  absent fields taking their defaults.
\<close>

datatype LegAction = BUY | SELL

datatype OptionType = CE | PE

datatype Leg =
    FUT LegAction pyfloat pyfloat
  | OPT OptionType LegAction pyfloat pyfloat pyfloat

fun intrinsic :: "OptionType \<Rightarrow> pyfloat \<Rightarrow> pyfloat \<Rightarrow> pyfloat" where
  "intrinsic CE p strike = py_max0 (fsub p strike)"
| "intrinsic PE p strike = py_max0 (fsub strike p)"

fun legPnl :: "pyfloat \<Rightarrow> Leg \<Rightarrow> pyfloat" where
  "legPnl p (FUT BUY lotSize entryPrice) = fmul (fsub p entryPrice) lotSize"
| "legPnl p (FUT SELL lotSize entryPrice) = fmul (fsub entryPrice p) lotSize"
| "legPnl p (OPT k BUY lotSize strike premium) = fmul (fsub (intrinsic k p strike) premium) lotSize"
| "legPnl p (OPT k SELL lotSize strike premium) = fmul (fsub premium (intrinsic k p strike)) lotSize"

definition read_action :: "pydict \<Rightarrow> LegAction" where
  "read_action leg = (if leg ''action'' = Some (PyStr ''BUY'') then BUY else SELL)"

definition read_leg :: "(string \<Rightarrow> pyfloat option) \<Rightarrow> pyfloat \<Rightarrow> pydict \<Rightarrow> py_error + Leg" where
  "read_leg sf underlying_price leg =
     bindE (py_float sf (dict_get leg ''lotSize'' (PyInt 0))) (\<lambda>lot_size.
     if leg ''type'' = Some (PyStr ''FUT'') then
       bindE (py_float sf (dict_get leg ''entryPrice'' (PyFloat underlying_price))) (\<lambda>entry_price.
       Inr (FUT (read_action leg) lot_size entry_price))
     else
       bindE (py_float sf (dict_get leg ''strike'' (PyFloat underlying_price))) (\<lambda>strike.
       bindE (py_float sf (dict_get leg ''premium'' (PyInt 0))) (\<lambda>premium.
       Inr (OPT (if leg ''type'' = Some (PyStr ''CE'') then CE else PE) (read_action leg)
              lot_size strike premium))))"

subsection \<open>A worked request\<close>

text \<open>
  The covered-call scenario of the specification, with the parameters given as strings as
  the web layer sends them, and the reading of the four strings that occur in it.
\<close>

definition example_parse :: "string \<Rightarrow> pyfloat option" where
  "example_parse = [''18000'' \<mapsto> Fin 18000, ''18500'' \<mapsto> Fin 18500, ''200'' \<mapsto> Fin 200,
     ''50'' \<mapsto> Fin 50]"

definition example_covered_call :: pydict where
  "example_covered_call = [''futuresPrice'' \<mapsto> PyStr ''18000'', ''callStrike'' \<mapsto> PyStr ''18500'',
     ''premium'' \<mapsto> PyStr ''200'', ''futuresLotSize'' \<mapsto> PyStr ''50'',
     ''callLotSize'' \<mapsto> PyStr ''50'']"

text \<open>
  Two covered-call requests with one unreadable parameter each: the same string under
  two different keys.
\<close>

definition example_malformed_premium :: pydict where
  "example_malformed_premium = [''premium'' \<mapsto> PyStr ''abc'']"

definition example_malformed_strike :: pydict where
  "example_malformed_strike = [''callStrike'' \<mapsto> PyStr ''abc'']"

text \<open>
  Legs used as examples: three futures legs whose P&L at price 0 is \<open>2^60\<close>,
  \<open>-2^60\<close> and 1; a call leg with no lot size and an infinite premium, with the
  reading of the string \<^verbatim>\<open>inf\<close>; and a leg with an unrecognised type and action and
  no lot size.
\<close>

definition example_leg_A :: pydict where
  "example_leg_A = [''type'' \<mapsto> PyStr ''FUT'', ''action'' \<mapsto> PyStr ''SELL'',
     ''lotSize'' \<mapsto> PyInt 1, ''entryPrice'' \<mapsto> PyFloat (Fin 1152921504606846976)]"

definition example_leg_B :: pydict where
  "example_leg_B = [''type'' \<mapsto> PyStr ''FUT'', ''action'' \<mapsto> PyStr ''BUY'',
     ''lotSize'' \<mapsto> PyInt 1, ''entryPrice'' \<mapsto> PyFloat (Fin 1152921504606846976)]"

definition example_leg_C :: pydict where
  "example_leg_C = [''type'' \<mapsto> PyStr ''FUT'', ''action'' \<mapsto> PyStr ''SELL'',
     ''lotSize'' \<mapsto> PyInt 1, ''entryPrice'' \<mapsto> PyInt 1]"




subsection \<open>Values that are floats\<close>

text \<open>
  \<open>Fin x\<close> stands for a float only when \<open>x\<close> is representable, that is, when rounding
  leaves it unchanged. Every result of a float operation is of this kind.
\<close>

definition is_double :: "pyfloat \<Rightarrow> bool" where
  "is_double a = (case a of Fin y \<Rightarrow> fl y = Fin y | _ \<Rightarrow> True)"

text \<open>
  The rounding of \<open>x\<close> to 53 significant bits before the overflow check of \<open>fl\<close>.
\<close>

definition rnd :: "rat \<Rightarrow> rat" where
  "rnd x = of_int (rhe (x / 2 powi fexp x)) * 2 powi fexp x"

section \<open>Facts about float rounding\<close>

lemma bitlen_powi_bounds:
  assumes "0 < (p::int)"
  shows "(2::rat) powi (bitlen p - 1) \<le> of_int p" and "of_int p < (2::rat) powi bitlen p"
proof -
  from assms have b1: "1 \<le> bitlen p"
    using bitlen_eq_zero_iff [of p] bitlen_nonneg [of p] by linarith
  from bitlen_bounds [OF assms] have lo: "2 ^ nat (bitlen p - 1) \<le> p" and hi: "p < 2 ^ nat (bitlen p)"
    by simp_all
  have "(2::rat) powi (bitlen p - 1) = 2 ^ nat (bitlen p - 1)"
    using b1 by (simp add: power_int_def)
  also have "\<dots> = of_int (2 ^ nat (bitlen p - 1))" by simp
  also have "\<dots> \<le> of_int p" using lo by (simp only: of_int_le_iff)
  finally show "(2::rat) powi (bitlen p - 1) \<le> of_int p" .
  have "(of_int p :: rat) < of_int (2 ^ nat (bitlen p))" using hi by (simp only: of_int_less_iff)
  also have "\<dots> = 2 powi bitlen p" using b1 by (simp add: power_int_def)
  finally show "of_int p < (2::rat) powi bitlen p" .
qed

lemma ilog2_bounds:
  assumes "0 < x"
  shows "2 powi ilog2 x \<le> x" and "x < 2 powi (ilog2 x + 1)"
proof -
  obtain p q where pq: "quotient_of x = (p, q)" by (cases "quotient_of x")
  then have q: "0 < q" and x: "x = of_int p / of_int q"
    by (auto dest: quotient_of_denom_pos quotient_of_div)
  have p: "0 < p" using assms q x by (simp add: zero_less_divide_iff)
  define d where "d = bitlen p - bitlen q"
  have qr: "(0::rat) < of_int q" using q by simp
  have two: "(2::rat) \<noteq> 0" by simp
  have lo: "2 powi (d - 1) \<le> x"
  proof -
    have "2 powi (d - 1) * (of_int q :: rat) \<le> 2 powi (d - 1) * 2 powi bitlen q"
      using bitlen_powi_bounds(2) [OF q] by (intro mult_left_mono) auto
    also have "\<dots> = 2 powi (bitlen p - 1)"
      unfolding d_def by (simp flip: power_int_add)
    also have "\<dots> \<le> of_int p" by (rule bitlen_powi_bounds(1) [OF p])
    finally show ?thesis using qr by (simp add: x pos_le_divide_eq)
  qed
  have hi: "x < 2 powi (d + 1)"
  proof -
    have "(of_int p :: rat) < 2 powi bitlen p" by (rule bitlen_powi_bounds(2) [OF p])
    also have "\<dots> = 2 powi (d + 1) * 2 powi (bitlen q - 1)"
      unfolding d_def by (simp flip: power_int_add)
    also have "\<dots> \<le> 2 powi (d + 1) * of_int q"
      using bitlen_powi_bounds(1) [OF q] by (intro mult_left_mono) auto
    finally show ?thesis using qr by (simp add: x pos_divide_less_eq)
  qed
  have il: "ilog2 x = (if 2 powi d \<le> x then d else d - 1)"
    by (simp add: ilog2_def pq d_def Let_def)
  show "2 powi ilog2 x \<le> x" using lo by (simp add: il)
  show "x < 2 powi (ilog2 x + 1)" using hi by (auto simp: il not_le)
qed

lemma ilog2_unique:
  assumes "2 powi k \<le> x" "x < 2 powi (k + 1)"
  shows "ilog2 x = k"
proof -
  have x: "0 < x" using assms(1) by (smt (verit) zero_less_power_int zero_less_numeral less_le_trans)
  have a: "(2::rat) powi ilog2 x < 2 powi (k + 1)"
    using ilog2_bounds(1) [OF x] assms(2) by simp
  have b: "(2::rat) powi k < 2 powi (ilog2 x + 1)"
    using ilog2_bounds(2) [OF x] assms(1) by simp
  have "ilog2 x < k + 1"
  proof (rule ccontr)
    assume "\<not> ilog2 x < k + 1"
    then have "(2::rat) powi (k + 1) \<le> 2 powi ilog2 x"
      by (intro power_int_increasing) auto
    with a show False by simp
  qed
  moreover have "k < ilog2 x + 1"
  proof (rule ccontr)
    assume "\<not> k < ilog2 x + 1"
    then have "(2::rat) powi (ilog2 x + 1) \<le> 2 powi k"
      by (intro power_int_increasing) auto
    with b show False by simp
  qed
  ultimately show ?thesis by simp
qed

lemma rhe_of_int [simp]: "rhe (of_int n) = n"
  by (simp add: rhe_def)

lemma rhe_floor: "\<lfloor>x\<rfloor> \<le> rhe x" and rhe_floor1: "rhe x \<le> \<lfloor>x\<rfloor> + 1"
  by (simp_all add: rhe_def Let_def)

lemma rhe_ge: "of_int n \<le> x \<Longrightarrow> n \<le> rhe x"
proof -
  assume "of_int n \<le> x"
  then have "n \<le> \<lfloor>x\<rfloor>" by (simp add: le_floor_iff)
  with rhe_floor [of x] show ?thesis by linarith
qed

lemma rhe_le: "x \<le> of_int n \<Longrightarrow> rhe x \<le> n"
proof -
  assume a: "x \<le> of_int n"
  have f: "\<lfloor>x\<rfloor> \<le> n" using a by (simp add: floor_le_iff) 
  show ?thesis
  proof (cases "x = of_int n")
    case True then show ?thesis by simp
  next
    case False
    with a have "x < of_int n" by simp
    then have "\<lfloor>x\<rfloor> < n" by (simp add: floor_less_iff)
    then show ?thesis by (auto simp: rhe_def Let_def)
  qed
qed

lemma rhe_mono: "x \<le> y \<Longrightarrow> rhe x \<le> rhe y"
proof -
  assume xy: "x \<le> y"
  have fm: "\<lfloor>x\<rfloor> \<le> \<lfloor>y\<rfloor>" using xy by (rule floor_mono)
  show ?thesis
  proof (cases "\<lfloor>x\<rfloor> = \<lfloor>y\<rfloor>")
    case True
    with xy show ?thesis by (auto simp: rhe_def Let_def)
  next
    case False
    with fm have "\<lfloor>x\<rfloor> + 1 \<le> \<lfloor>y\<rfloor>" by simp
    moreover have "rhe x \<le> \<lfloor>x\<rfloor> + 1" by (auto simp: rhe_def Let_def)
    moreover have "\<lfloor>y\<rfloor> \<le> rhe y" by (auto simp: rhe_def Let_def)
    ultimately show ?thesis by linarith
  qed
qed

lemma rhe_abs_le: "\<bar>x\<bar> \<le> of_int n \<Longrightarrow> \<bar>rhe x\<bar> \<le> n"
proof -
  assume a: "\<bar>x\<bar> \<le> of_int n"
  then have "x \<le> of_int n" and "of_int (- n) \<le> x" by (simp_all add: abs_le_iff)
  then have "rhe x \<le> n" and "- n \<le> rhe x" by (auto intro: rhe_le rhe_ge)
  then show ?thesis by simp
qed

lemma rhe_abs_ge: "of_int n \<le> \<bar>x\<bar> \<Longrightarrow> n \<le> \<bar>rhe x\<bar>"
proof (cases "0 \<le> x")
  case True
  assume "of_int n \<le> \<bar>x\<bar>"
  with True have "n \<le> rhe x" by (simp add: rhe_ge)
  then show ?thesis by simp
next
  case False
  assume "of_int n \<le> \<bar>x\<bar>"
  with False have "x \<le> of_int (- n)" by simp
  then have "rhe x \<le> - n" by (rule rhe_le)
  then show ?thesis by simp
qed

lemma two_powi_pos [simp]: "(0::rat) < 2 powi k"
  by simp

lemma two_powi_ne0: "(2::rat) powi k \<noteq> 0"
  by simp

lemma two_powi_split: "(2::rat) powi (a + b) = 2 powi a * 2 powi b"
  by (rule power_int_add) simp

lemma two_powi_diff: "(2::rat) powi (a - b) = 2 powi a / 2 powi b"
  by (rule power_int_diff) simp

lemma two_powi_mono: "a \<le> b \<Longrightarrow> (2::rat) powi a \<le> 2 powi b"
  by (rule power_int_increasing) simp_all

lemma two_powi_less_cancel: "(2::rat) powi a < 2 powi b \<Longrightarrow> a < b"
  using two_powi_mono [of b a] by (cases "a < b") auto

lemma fl_alt:
  "fl x = (if x = 0 then Fin 0 else
     if overflow_threshold \<le> \<bar>of_int (rhe (x / 2 powi fexp x)) * 2 powi fexp x\<bar>
     then (if 0 < x then PInf else NInf)
     else Fin (of_int (rhe (x / 2 powi fexp x)) * 2 powi fexp x))"
  by (simp add: fl_def Let_def)

lemma overflow_threshold_pos [simp]: "0 < overflow_threshold"
  by (simp add: overflow_threshold_def)

lemma fexp_ge: "- 1074 \<le> fexp x"
  by (simp add: fexp_def)

lemma fl_mant_bound:
  assumes "x \<noteq> 0"
  shows "\<bar>rhe (x / 2 powi fexp x)\<bar> \<le> 2 ^ 53"
proof -
  define L where "L = ilog2 \<bar>x\<bar>"
  have ax: "0 < \<bar>x\<bar>" using assms by simp
  have hi: "\<bar>x\<bar> < 2 powi (L + 1)" unfolding L_def by (rule ilog2_bounds(2) [OF ax])
  have "L + 1 \<le> fexp x + 53" by (simp add: fexp_def L_def)
  then have "(2::rat) powi (L + 1) \<le> 2 powi (fexp x + 53)" by (rule two_powi_mono)
  with hi have "\<bar>x\<bar> < 2 powi (fexp x + 53)" by simp
  then have "\<bar>x\<bar> < 2 powi fexp x * 2 ^ 53" by (simp add: two_powi_split)
  then have "\<bar>x\<bar> / 2 powi fexp x < 2 ^ 53"
    by (simp add: pos_divide_less_eq mult.commute)
  then have "\<bar>x / 2 powi fexp x\<bar> \<le> of_int (2 ^ 53)" by simp
  then show ?thesis by (rule rhe_abs_le)
qed

lemma fl_repr:
  assumes "fl x = Fin y"
  shows "\<exists>m e. y = of_int m * 2 powi e \<and> \<bar>m\<bar> \<le> 2 ^ 53 \<and> - 1074 \<le> e \<and> \<bar>y\<bar> < overflow_threshold"
proof (cases "x = 0")
  case True
  with assms have "y = 0" by (simp add: fl_def)
  then have "y = of_int 0 * 2 powi 0 \<and> \<bar>0::int\<bar> \<le> 2 ^ 53 \<and> - 1074 \<le> (0::int) \<and> \<bar>y\<bar> < overflow_threshold"
    by simp
  then show ?thesis by blast
next
  case False
  let ?m = "rhe (x / 2 powi fexp x)"
  from assms False have y: "y = of_int ?m * 2 powi fexp x" and b: "\<not> overflow_threshold \<le> \<bar>y\<bar>"
    by (auto simp: fl_alt split: if_splits)
  from b have "\<bar>y\<bar> < overflow_threshold" by simp
  with y fl_mant_bound [OF False] fexp_ge [of x] show ?thesis by blast
qed

lemma fl_exact:
  assumes x: "x = of_int m * 2 powi e" and m: "\<bar>m\<bar> \<le> 2 ^ 53" and e: "- 1074 \<le> e"
    and b: "\<bar>x\<bar> < overflow_threshold"
  shows "fl x = Fin x"
proof (cases "x = 0")
  case True
  then show ?thesis by (simp add: fl_def)
next
  case False
  define L where "L = ilog2 \<bar>x\<bar>"
  have ax: "0 < \<bar>x\<bar>" using False by simp
  have lo: "2 powi L \<le> \<bar>x\<bar>" unfolding L_def by (rule ilog2_bounds(1) [OF ax])
  define f where "f = fexp x"
  have fe: "f = max (L - 52) (- 1074)" by (simp add: f_def fexp_def L_def)
  have absx: "\<bar>x\<bar> = of_int \<bar>m\<bar> * 2 powi e" by (simp add: x abs_mult)
  have "\<exists>k. x / 2 powi f = of_int k"
  proof (cases "f \<le> e")
    case True
    define n where "n = nat (e - f)"
    have "e = f + int n" using True by (simp add: n_def)
    then have "(2::rat) powi e = 2 powi f * 2 ^ n"
      by (simp only: two_powi_split power_int_of_nat)
    then have "x = of_int (m * 2 ^ n) * 2 powi f"
      by (simp only: x of_int_mult of_int_power of_int_numeral mult_ac)
    then have "x / 2 powi f = of_int (m * 2 ^ n)"
      by (simp only: nonzero_mult_div_cancel_right [OF two_powi_ne0])
    then show ?thesis by blast
  next
    case False
    then have lt: "e < f" by simp
    with e fe have fe': "f = L - 52" by (simp add: max_def split: if_splits)
    have "(of_int \<bar>m\<bar> :: rat) \<le> of_int (2 ^ 53)" using m by (simp only: of_int_le_iff)
    then have m': "(of_int \<bar>m\<bar> :: rat) \<le> 2 ^ 53" by simp
    have "\<bar>x\<bar> \<le> 2 ^ 53 * 2 powi e"
      unfolding absx using m' by (intro mult_right_mono) simp_all
    also have "\<dots> = 2 powi (e + 53)" by (simp add: two_powi_split)
    finally have "2 powi L \<le> (2::rat) powi (e + 53)" using lo by simp
    then have "\<not> (2::rat) powi (e + 53) < 2 powi L" by simp
    then have "\<not> e + 53 < L" using power_int_strict_increasing [of "e + 53" L "2::rat"] by auto
    with lt fe' have Le: "L = e + 53" by simp
    have "(2::rat) powi (e + 53) \<le> of_int \<bar>m\<bar> * 2 powi e" using lo absx Le by simp
    then have "(2::rat) ^ 53 * 2 powi e \<le> of_int \<bar>m\<bar> * 2 powi e" by (simp add: two_powi_split)
    then have "(2::rat) ^ 53 \<le> of_int \<bar>m\<bar>" by simp
    then have "(of_int (2 ^ 53) :: rat) \<le> of_int \<bar>m\<bar>" by simp
    then have "2 ^ 53 \<le> \<bar>m\<bar>" by (simp only: of_int_le_iff)
    with m have am: "\<bar>m\<bar> = 2 ^ 53" by simp
    have fx: "f = e + 1" using fe' Le by simp
    have pf: "(2::rat) powi e = 2 powi f / 2" unfolding fx by (simp add: two_powi_split)
    have "even \<bar>m\<bar>" unfolding am by simp
    then have "even m" by simp
    then have m2: "m = 2 * (m div 2)" by simp
    have "x = of_int (2 * (m div 2)) * (2 powi f / 2)"
      using x m2 pf by simp
    also have "\<dots> = of_int (m div 2) * 2 powi f" by simp
    finally have "x / 2 powi f = of_int (m div 2)"
      by (simp only: nonzero_mult_div_cancel_right [OF two_powi_ne0])
    then show ?thesis by blast
  qed
  then obtain k where k: "x / 2 powi f = of_int k" by blast
  have "of_int (rhe (x / 2 powi f)) * 2 powi f = x / 2 powi f * 2 powi f"
    by (simp only: k rhe_of_int)
  also have "\<dots> = x" by simp
  finally have "of_int (rhe (x / 2 powi fexp x)) * 2 powi fexp x = x" by (simp only: f_def)
  then show ?thesis using b False by (simp only: fl_alt if_False not_le [symmetric])
qed

lemma fl_idem: "fl x = Fin y \<Longrightarrow> fl y = Fin y"
  using fl_repr [of x y] fl_exact by blast

lemma fl_of_int:
  assumes "\<bar>i\<bar> \<le> 2 ^ 53"
  shows "fl (of_int i) = Fin (of_int i)"
proof (rule fl_exact [where m = i and e = 0])
  show "(of_int i :: rat) = of_int i * 2 powi 0" by simp
  show "\<bar>i\<bar> \<le> 2 ^ 53" by fact
  show "- 1074 \<le> (0::int)" by simp
  have "\<bar>of_int i :: rat\<bar> = of_int \<bar>i\<bar>" by simp
  also have "\<dots> \<le> of_int (2 ^ 53)" using assms by (simp only: of_int_le_iff)
  also have "\<dots> < overflow_threshold" by (simp add: overflow_threshold_def)
  finally show "\<bar>of_int i :: rat\<bar> < overflow_threshold" .
qed

lemma fl_nonzero:
  assumes "1 \<le> \<bar>x\<bar>"
  shows "fl x \<noteq> Fin 0"
proof -
  define L where "L = ilog2 \<bar>x\<bar>"
  have ax: "0 < \<bar>x\<bar>" and x0: "x \<noteq> 0" using assms by auto
  have lo: "2 powi L \<le> \<bar>x\<bar>" unfolding L_def by (rule ilog2_bounds(1) [OF ax])
  have hi: "\<bar>x\<bar> < 2 powi (L + 1)" unfolding L_def by (rule ilog2_bounds(2) [OF ax])
  have "(2::rat) powi 0 < 2 powi (L + 1)" using assms hi by simp
  then have "0 < L + 1" by (rule two_powi_less_cancel)
  then have fe: "fexp x = L - 52" by (simp add: fexp_def L_def)
  have "(1::rat) \<le> 2 powi L / 2 powi fexp x"
    unfolding fe by (simp flip: two_powi_diff)
  also have "\<dots> \<le> \<bar>x\<bar> / 2 powi fexp x" using lo by (simp add: divide_right_mono)
  finally have "of_int 1 \<le> \<bar>x / 2 powi fexp x\<bar>" by simp
  then have "1 \<le> \<bar>rhe (x / 2 powi fexp x)\<bar>" by (rule rhe_abs_ge)
  then have "of_int (rhe (x / 2 powi fexp x)) * 2 powi fexp x \<noteq> (0::rat)" by auto
  then show ?thesis using x0 by (auto simp: fl_alt)
qed

section \<open>Facts about the error monad and the grid\<close>

lemma bindE_Inl [simp]: "bindE (Inl e) f = Inl e"
  by (simp add: bindE_def)

lemma bindE_Inr [simp]: "bindE (Inr a) f = f a"
  by (simp add: bindE_def)

lemma bindE_eq_Inl: "bindE m f = Inl e \<longleftrightarrow> m = Inl e \<or> (\<exists>a. m = Inr a \<and> f a = Inl e)"
  by (cases m) simp_all

lemma bindE_eq_Inr: "bindE m f = Inr b \<longleftrightarrow> (\<exists>a. m = Inr a \<and> f a = Inr b)"
  by (cases m) simp_all

lemma mapE_Inr: "(\<And>x. x \<in> set xs \<Longrightarrow> f x = Inr (g x)) \<Longrightarrow> mapE f xs = Inr (map g xs)"
  by (induction xs) simp_all

lemma mapE_Inl: "mapE f xs = Inl e \<Longrightarrow> \<exists>x \<in> set xs. f x = Inl e"
  by (induction xs) (auto simp: bindE_eq_Inl)

lemma mapE_length: "mapE f xs = Inr ys \<Longrightarrow> length ys = length xs"
  by (induction xs arbitrary: ys) (auto simp: bindE_eq_Inr)

lemma int_to_float_small: "\<bar>i\<bar> \<le> 2 ^ 53 \<Longrightarrow> int_to_float i = Inr (Fin (of_int i))"
  by (simp add: int_to_float_def fl_of_int)

lemma int_to_float_Inl: "int_to_float i = Inl e \<Longrightarrow> e = OverflowError"
  by (cases "fl (of_int i)") (auto simp: int_to_float_def)

lemma int_to_float_Inr: "int_to_float i = Inr a \<Longrightarrow> fl (of_int i) = a \<and> (\<exists>y. a = Fin y)"
  by (cases "fl (of_int i)") (auto simp: int_to_float_def)

lemma int_to_float_nonzero: "i \<noteq> 0 \<Longrightarrow> int_to_float i \<noteq> Inr (Fin 0)"
proof
  assume i: "i \<noteq> 0" and "int_to_float i = Inr (Fin 0)"
  then have z: "fl (of_int i) = Fin 0" by (auto dest: int_to_float_Inr)
  from i have "1 \<le> \<bar>i\<bar>" by simp
  then have "(of_int 1 :: rat) \<le> of_int \<bar>i\<bar>" by (simp only: of_int_le_iff)
  then have "1 \<le> \<bar>of_int i :: rat\<bar>" by simp
  from fl_nonzero [OF this] z show False by simp
qed

lemma int_to_float_zero [simp]: "int_to_float 0 = Inr (Fin 0)"
  by (simp add: int_to_float_def fl_def)

lemma py_truediv_int_zero: "py_truediv_int a n = Inl ZeroDivisionError \<longleftrightarrow> n = 0"
proof
  assume "py_truediv_int a n = Inl ZeroDivisionError"
  then show "n = 0"
    using int_to_float_nonzero [of n]
    by (auto simp: py_truediv_int_def bindE_eq_Inl split: if_splits dest: int_to_float_Inl)
next
  assume "n = 0"
  then show "py_truediv_int a n = Inl ZeroDivisionError"
    by (simp add: py_truediv_int_def)
qed

lemma py_truediv_int_small:
  "n \<noteq> 0 \<Longrightarrow> \<bar>n\<bar> \<le> 2 ^ 53 \<Longrightarrow> py_truediv_int a n = Inr (fdiv a (Fin (of_int n)))"
  by (simp add: py_truediv_int_def int_to_float_small)

lemma calculate_price_range_alt:
  "calculate_price_range U r n =
     bindE (py_truediv_int (fsub (maxPrice U r) (minPrice U r)) (n - 1)) (\<lambda>st.
       mapE (\<lambda>i. bindE (int_to_float i) (\<lambda>fi. Inr (fadd (minPrice U r) (fmul st fi)))) [0 .. n - 1])"
  by (simp add: calculate_price_range_def minPrice_def maxPrice_def Let_def)

lemma calculate_price_range_small:
  assumes "2 \<le> n" and "n \<le> 2 ^ 53"
  shows "calculate_price_range U r n =
    Inr (map (\<lambda>i. fadd (minPrice U r) (fmul (step U r n) (Fin (of_int i)))) [0 .. n - 1])"
proof -
  have d: "py_truediv_int (fsub (maxPrice U r) (minPrice U r)) (n - 1) = Inr (step U r n)"
    using assms by (simp add: py_truediv_int_small step_def)
  have "mapE (\<lambda>i. bindE (int_to_float i) (\<lambda>fi. Inr (fadd (minPrice U r) (fmul (step U r n) fi)))) [0 .. n - 1]
      = Inr (map (\<lambda>i. fadd (minPrice U r) (fmul (step U r n) (Fin (of_int i)))) [0 .. n - 1])"
  proof (rule mapE_Inr)
    fix i assume "i \<in> set [0 .. n - 1]"
    then have "\<bar>i\<bar> \<le> 2 ^ 53" using assms by auto
    then show "bindE (int_to_float i) (\<lambda>fi. Inr (fadd (minPrice U r) (fmul (step U r n) fi)))
        = Inr (fadd (minPrice U r) (fmul (step U r n) (Fin (of_int i))))"
      by (simp add: int_to_float_small)
  qed
  with d show ?thesis by (simp add: calculate_price_range_alt)
qed

lemma calculate_price_range_50:
  "calculate_price_range U r 50 =
    Inr (map (\<lambda>i. fadd (minPrice U r) (fmul (step U r 50) (Fin (of_int i)))) [0 .. 49])"
  using calculate_price_range_small [of 50 U r] by simp

lemma calculate_price_range_not_ValueError:
  "calculate_price_range U r n = Inl e \<Longrightarrow> e = ZeroDivisionError \<or> e = OverflowError"
  by (auto simp: calculate_price_range_alt bindE_eq_Inl py_truediv_int_def
      split: if_splits dest!: mapE_Inl int_to_float_Inl)

lemma is_double_fl [simp]: "is_double (fl x)"
  by (cases "fl x") (auto simp: is_double_def dest: fl_idem)

lemma is_double_fadd [simp]: "is_double (fadd a b)"
  by (cases a; cases b) (simp_all add: is_double_def [of PInf] is_double_def [of NInf] is_double_def [of NaN])

lemma is_double_fmul [simp]: "is_double (fmul a b)"
  by (cases a; cases b) (simp_all add: is_double_def [of PInf] is_double_def [of NInf] is_double_def [of NaN])

lemma fadd_zero_right: "is_double a \<Longrightarrow> fadd a (Fin 0) = a"
  by (cases a) (simp_all add: is_double_def)

lemma fadd_zero_left: "is_double a \<Longrightarrow> fadd (Fin 0) a = a"
  by (cases a) (simp_all add: is_double_def)

lemma fl_zero [simp]: "fl 0 = Fin 0"
  by (simp add: fl_def)

lemma fmul_zero_right: "fmul (Fin x) (Fin 0) = Fin 0"
  by simp

lemma is_double_minPrice [simp]: "is_double (minPrice U r)"
  by (simp add: minPrice_def)

section \<open>Evaluating float operations on concrete numbers\<close>

lemma rhe_near: "of_int m - 1 / 2 < x \<Longrightarrow> x < of_int m + 1 / 2 \<Longrightarrow> rhe x = m"
proof -
  assume a: "of_int m - 1 / 2 < x" and b: "x < of_int m + 1 / 2"
  show ?thesis
  proof (cases "of_int m \<le> x")
    case True
    with b have "\<lfloor>x\<rfloor> = m" by (intro floor_unique) auto
    with b show ?thesis by (simp add: rhe_def Let_def)
  next
    case False
    with a have "\<lfloor>x\<rfloor> = m - 1" by (intro floor_unique) auto
    with a show ?thesis by (simp add: rhe_def Let_def)
  qed
qed

lemma fl_eval:
  assumes k: "2 powi k \<le> \<bar>x\<bar>" "\<bar>x\<bar> < 2 powi (k + 1)"
    and e: "e = max (k - 52) (- 1074)" "e \<le> 970"
    and m: "of_int m - 1 / 2 < x / 2 powi e" "x / 2 powi e < of_int m + 1 / 2"
  shows "fl x = Fin (of_int m * 2 powi e)"
proof -
  have "ilog2 \<bar>x\<bar> = k" by (rule ilog2_unique [OF k])
  then have fe: "fexp x = e" by (simp add: fexp_def e)
  have "0 < \<bar>x\<bar>" using k(1) two_powi_pos [of k] by linarith
  then have x0: "x \<noteq> 0" by simp
  have rm: "rhe (x / 2 powi e) = m" by (rule rhe_near [OF m])
  have "\<bar>m\<bar> \<le> 2 ^ 53" using fl_mant_bound [OF x0] by (simp add: fe rm)
  then have "(of_int \<bar>m\<bar> :: rat) \<le> of_int (2 ^ 53)" by (simp only: of_int_le_iff)
  then have "\<bar>of_int m :: rat\<bar> \<le> 2 powi 53" by simp
  then have "\<bar>of_int m * 2 powi e :: rat\<bar> \<le> 2 powi 53 * 2 powi e"
    by (simp add: abs_mult)
  also have "\<dots> = 2 powi (53 + e)" by (simp only: two_powi_split)
  also have "\<dots> < 2 powi 1024" using e(2) by (intro power_int_strict_increasing) simp_all
  finally have "\<bar>of_int m * 2 powi e :: rat\<bar> < overflow_threshold"
    by (simp only: overflow_threshold_def)
  then show ?thesis using x0 by (simp add: fl_alt fe rm not_le [symmetric])
qed

lemma fl_numeral: "numeral n \<le> (2 ^ 53 :: int) \<Longrightarrow> fl (numeral n) = Fin (numeral n)"
  using fl_of_int [of "numeral n"] by simp


lemma fl_one [simp]: "fl 1 = Fin 1"
  using fl_of_int [of 1] by simp

section \<open>The price grid\<close>

lemma fl_2_div_49: "fl (2 / 49) = Fin (5882252574524729 / 144115188075855872)"
proof -
  have "fl (2 / 49) = Fin (of_int 5882252574524729 * 2 powi (- 57))"
    by (rule fl_eval [where k = "(- 5)"]) (simp_all add: power_int_minus_divide)
  then show ?thesis by (simp add: power_int_minus_divide)
qed

lemma fl_step_times_49: "fl (5882252574524729 / 144115188075855872 * 49) = Fin (9007199254740991 / 4503599627370496)"
proof -
  have "fl (5882252574524729 / 144115188075855872 * 49) = Fin (of_int 9007199254740991 * 2 powi (- 52))"
    by (rule fl_eval [where k = "0"]) (simp_all add: power_int_minus_divide)
  then show ?thesis by (simp add: power_int_minus_divide)
qed

lemma fl_tiny_percent: "fl (1 / 2 ^ 70 / 100) = Fin (5764607523034235 / 680564733841876926926749214863536422912)"
proof -
  have "fl (1 / 2 ^ 70 / 100) = Fin (of_int 5764607523034235 * 2 powi (- 129))"
    by (rule fl_eval [where k = "(- 77)"]) (simp_all add: power_int_minus_divide)
  then show ?thesis by (simp add: power_int_minus_divide)
qed

lemma fl_one_minus_tiny: "fl (1 - 5764607523034235 / 680564733841876926926749214863536422912) = Fin (1)"
proof -
  have "fl (1 - 5764607523034235 / 680564733841876926926749214863536422912) = Fin (of_int 9007199254740992 * 2 powi (- 53))"
    by (rule fl_eval [where k = "(- 1)"]) (simp_all add: power_int_minus_divide)
  then show ?thesis by (simp add: power_int_minus_divide)
qed

lemma fl_one_plus_tiny: "fl (1 + 5764607523034235 / 680564733841876926926749214863536422912) = Fin (1)"
proof -
  have "fl (1 + 5764607523034235 / 680564733841876926926749214863536422912) = Fin (of_int 4503599627370496 * 2 powi (- 52))"
    by (rule fl_eval [where k = "0"]) (simp_all add: power_int_minus_divide)
  then show ?thesis by (simp add: power_int_minus_divide)
qed

lemma last_map_upto: "i \<le> j \<Longrightarrow> last (map f [i .. j]) = f j"
  by (simp add: upto_rec2 [of i j])

lemma calculate_price_range_nonpos:
  assumes "n \<le> 0" and "- (2 ^ 53) < n"
  shows "calculate_price_range U r n = Inr []"
proof -
  have "py_truediv_int (fsub (maxPrice U r) (minPrice U r)) (n - 1)
      = Inr (fdiv (fsub (maxPrice U r) (minPrice U r)) (Fin (of_int (n - 1))))"
    using assms by (intro py_truediv_int_small) auto
  moreover have "[0 .. n - 1] = []" using assms by simp
  ultimately show ?thesis by (simp add: calculate_price_range_alt)
qed

lemma grid_1_100:
  "minPrice (Fin 1) (Fin 100) = Fin 0" "maxPrice (Fin 1) (Fin 100) = Fin 2"
  "step (Fin 1) (Fin 100) 50 = Fin (5882252574524729 / 144115188075855872)"
  by (simp_all add: minPrice_def maxPrice_def step_def fsub_def fl_numeral fl_2_div_49)

lemma grid_tiny_range:
  "minPrice (Fin 18000) (Fin (1 / 2 ^ 70)) = Fin 18000"
  "maxPrice (Fin 18000) (Fin (1 / 2 ^ 70)) = Fin 18000"
  using fl_tiny_percent fl_one_minus_tiny fl_one_plus_tiny
  by (simp_all add: minPrice_def maxPrice_def fsub_def fl_numeral)

lemma step_tiny_range: "step (Fin 18000) (Fin (1 / 2 ^ 70)) 50 = Fin 0"
  using grid_tiny_range by (simp add: step_def fsub_def)


text \<open>
  \<^bold>\<open>C1\<close> as stated fails. With \<open>underlyingPrice = 1\<close>, \<open>rangePercent = 100\<close> and 50
  points the last value is \<open>1.9999999999999998\<close>, not \<open>maxPrice = 2\<close>; with
  \<open>underlyingPrice = 18000\<close> and \<open>rangePercent = 2^-70\<close> all 50 values are equal.
\<close>

theorem C1_last_not_max_counterexample:
  "map_sum id last (calculate_price_range (Fin 1) (Fin 100) 50)
     = Inr (Fin (9007199254740991 / 4503599627370496)) \<and>
   maxPrice (Fin 1) (Fin 100) = Fin 2 \<and>
   calculate_price_range (Fin 18000) (Fin (1 / 2 ^ 70)) 50 = Inr (replicate 50 (Fin 18000))"
proof (intro conjI)
  have "last (map (\<lambda>i. fadd (minPrice (Fin 1) (Fin 100))
            (fmul (step (Fin 1) (Fin 100) 50) (Fin (of_int i)))) [0 .. 49])
      = fadd (minPrice (Fin 1) (Fin 100)) (fmul (step (Fin 1) (Fin 100) 50) (Fin (of_int 49)))"
    by (rule last_map_upto) simp
  also have "\<dots> = Fin (9007199254740991 / 4503599627370496)"
    using fl_step_times_49 fl_idem [OF fl_step_times_49] by (simp add: grid_1_100 mult.commute)
  finally show "map_sum id last (calculate_price_range (Fin 1) (Fin 100) 50)
     = Inr (Fin (9007199254740991 / 4503599627370496))"
    by (simp add: calculate_price_range_50)
  show "maxPrice (Fin 1) (Fin 100) = Fin 2" by (rule grid_1_100)
  have "map (\<lambda>i. fadd (Fin 18000) (fmul (Fin 0) (Fin (of_int i)))) [0 .. 49]
      = map (\<lambda>i. Fin 18000) [0 .. 49]"
    by (simp add: fl_numeral)
  also have "\<dots> = replicate 50 (Fin 18000)" by (simp add: map_replicate_const)
  finally show "calculate_price_range (Fin 18000) (Fin (1 / 2 ^ 70)) 50
      = Inr (replicate 50 (Fin 18000))"
    using grid_tiny_range(1) step_tiny_range by (simp add: calculate_price_range_50)
qed

text \<open>
  \<^bold>\<open>C7\<close>, as the code has it. The grid generator fails with a division by zero exactly
  when \<open>pointCount = 1\<close>. For \<open>pointCount \<le> 0\<close> the divisor \<open>pointCount - 1\<close> is not
  zero and \<^verbatim>\<open>range(pointCount)\<close> is empty: the result is the empty grid. For
  \<open>pointCount \<ge> 2\<close> the division by zero cannot happen.
\<close>

theorem C7_zero_division:
  "(calculate_price_range U r n = Inl ZeroDivisionError \<longleftrightarrow> n = 1) \<and>
   (n \<le> 0 \<and> - (2 ^ 53) < n \<longrightarrow> calculate_price_range U r n = Inr [])"
proof (intro conjI impI)
  show "calculate_price_range U r n = Inl ZeroDivisionError \<longleftrightarrow> n = 1"
  proof
    assume "calculate_price_range U r n = Inl ZeroDivisionError"
    then have "py_truediv_int (fsub (maxPrice U r) (minPrice U r)) (n - 1) = Inl ZeroDivisionError"
      by (auto simp: calculate_price_range_alt bindE_eq_Inl dest!: mapE_Inl int_to_float_Inl)
    then show "n = 1" by (simp add: py_truediv_int_zero)
  next
    assume "n = 1"
    then show "calculate_price_range U r n = Inl ZeroDivisionError"
      by (simp add: calculate_price_range_alt py_truediv_int_def)
  qed
next
  assume "n \<le> 0 \<and> - (2 ^ 53) < n"
  then show "calculate_price_range U r n = Inr []"
    by (simp add: calculate_price_range_nonpos)
qed

theorem C7_zero_division_witness:
  "((0::int) \<le> 0 \<and> - (2 ^ 53) < (0::int)) \<and>
   calculate_price_range (Fin 18000) (Fin 30) 0 = Inr [] \<and>
   (calculate_price_range (Fin 18000) (Fin 30) 0 = Inl ZeroDivisionError \<longleftrightarrow> (0::int) = 1)"
  using C7_zero_division [of "Fin 18000" "Fin 30" 0] by simp

text \<open>
  \<^bold>\<open>C7\<close> as stated fails for grid cardinalities below 1: with \<open>pointCount = 0\<close> or
  \<open>pointCount = -3\<close> the generator returns the empty grid and raises nothing.
\<close>

theorem C7_empty_grid_counterexample:
  "calculate_price_range (Fin 18000) (Fin 30) 0 = Inr [] \<and>
   calculate_price_range (Fin 18000) (Fin 30) (- 3) = Inr []"
  by (simp add: calculate_price_range_nonpos)

section \<open>The fixed strategies and the dispatcher\<close>

lemma calculate_price_range_grid: "calculate_price_range U r 50 = Inr (grid U r)"
  by (simp add: calculate_price_range_50 grid_def)

lemma length_grid [simp]: "length (grid U r) = 50"
  by (simp add: grid_def)

lemma foldl_append_map: "foldl (\<lambda>acc x. acc @ [f x]) ys xs = ys @ map f xs"
  by (induction xs arbitrary: ys) simp_all

lemma bindE_assoc: "bindE (bindE m f) g = bindE m (\<lambda>a. bindE (f a) g)"
  by (cases m) simp_all

lemma calculate_covered_call_read:
  "calculate_covered_call sf P U r =
     bindE (read_parameters sf P (fixed_parameters ''covered-call'' U)) (\<lambda>vs.
       Inr (map (\<lambda>p. \<lparr>price = py_round2 p, pnl = py_round2 (fixed_pnl ''covered-call'' vs p)\<rparr>) (grid U r)))"
  by (simp add: calculate_covered_call_def read_parameters_def fixed_parameters_def fixed_pnl_def
      covered_call_pnl_def calculate_price_range_grid foldl_append_map Let_def bindE_assoc cong: if_cong)

lemma calculate_bull_call_spread_read:
  "calculate_bull_call_spread sf P U r =
     bindE (read_parameters sf P (fixed_parameters ''bull-call-spread'' U)) (\<lambda>vs.
       Inr (map (\<lambda>p. \<lparr>price = py_round2 p, pnl = py_round2 (fixed_pnl ''bull-call-spread'' vs p)\<rparr>) (grid U r)))"
  by (simp add: calculate_bull_call_spread_def read_parameters_def fixed_parameters_def fixed_pnl_def
      bull_call_spread_pnl_def calculate_price_range_grid foldl_append_map Let_def bindE_assoc cong: if_cong)

lemma calculate_iron_condor_read:
  "calculate_iron_condor sf P U r =
     bindE (read_parameters sf P (fixed_parameters ''iron-condor'' U)) (\<lambda>vs.
       Inr (map (\<lambda>p. \<lparr>price = py_round2 p, pnl = py_round2 (fixed_pnl ''iron-condor'' vs p)\<rparr>) (grid U r)))"
  by (simp add: calculate_iron_condor_def read_parameters_def fixed_parameters_def fixed_pnl_def
      iron_condor_pnl_def calculate_price_range_grid foldl_append_map Let_def bindE_assoc cong: if_cong)

lemma calculate_long_straddle_read:
  "calculate_long_straddle sf P U r =
     bindE (read_parameters sf P (fixed_parameters ''long-straddle'' U)) (\<lambda>vs.
       Inr (map (\<lambda>p. \<lparr>price = py_round2 p, pnl = py_round2 (fixed_pnl ''long-straddle'' vs p)\<rparr>) (grid U r)))"
  by (simp add: calculate_long_straddle_def read_parameters_def fixed_parameters_def fixed_pnl_def
      long_straddle_pnl_def calculate_price_range_grid foldl_append_map Let_def bindE_assoc cong: if_cong)

lemma calculate_protective_put_read:
  "calculate_protective_put sf P U r =
     bindE (read_parameters sf P (fixed_parameters ''protective-put'' U)) (\<lambda>vs.
       Inr (map (\<lambda>p. \<lparr>price = py_round2 p, pnl = py_round2 (fixed_pnl ''protective-put'' vs p)\<rparr>) (grid U r)))"
  by (simp add: calculate_protective_put_def read_parameters_def fixed_parameters_def fixed_pnl_def
      protective_put_pnl_def calculate_price_range_grid foldl_append_map Let_def bindE_assoc cong: if_cong)

lemma calculate_butterfly_spread_read:
  "calculate_butterfly_spread sf P U r =
     bindE (read_parameters sf P (fixed_parameters ''butterfly-spread'' U)) (\<lambda>vs.
       Inr (map (\<lambda>p. \<lparr>price = py_round2 p, pnl = py_round2 (fixed_pnl ''butterfly-spread'' vs p)\<rparr>) (grid U r)))"
  by (simp add: calculate_butterfly_spread_def read_parameters_def fixed_parameters_def fixed_pnl_def
      butterfly_spread_pnl_def calculate_price_range_grid foldl_append_map Let_def bindE_assoc cong: if_cong)

lemma strategy_calculators_fixed:
  "strategy_calculators ''covered-call'' = Some calculate_covered_call"
  "strategy_calculators ''bull-call-spread'' = Some calculate_bull_call_spread"
  "strategy_calculators ''iron-condor'' = Some calculate_iron_condor"
  "strategy_calculators ''long-straddle'' = Some calculate_long_straddle"
  "strategy_calculators ''protective-put'' = Some calculate_protective_put"
  "strategy_calculators ''butterfly-spread'' = Some calculate_butterfly_spread"
  by (simp_all add: strategy_calculators_def)

lemma fixed_strategies_iff:
  "st \<in> set fixed_strategies \<longleftrightarrow> st = ''covered-call'' \<or> st = ''bull-call-spread''
    \<or> st = ''iron-condor'' \<or> st = ''long-straddle'' \<or> st = ''protective-put''
    \<or> st = ''butterfly-spread''"
  unfolding fixed_strategies_def by (simp only: set_simps insert_iff empty_iff simp_thms)

lemma strategy_calculators_unknown:
  assumes "st \<notin> set fixed_strategies"
  shows "strategy_calculators st = None"
proof -
  let ?tab = "[(''covered-call'', calculate_covered_call),
      (''bull-call-spread'', calculate_bull_call_spread),
      (''iron-condor'', calculate_iron_condor),
      (''long-straddle'', calculate_long_straddle),
      (''protective-put'', calculate_protective_put),
      (''butterfly-spread'', calculate_butterfly_spread)]"
  have "map fst ?tab = fixed_strategies"
    unfolding fixed_strategies_def by (simp only: list.map fst_conv)
  then have "fst ` set ?tab = set fixed_strategies"
    by (simp only: set_map [symmetric])
  with assms have "st \<notin> fst ` set ?tab" by simp
  then have "map_of ?tab st = None" using map_of_eq_None_iff [of ?tab st] by blast
  then show ?thesis by (simp only: strategy_calculators_def)
qed

lemma fixed_not_custom: "''custom-strategy'' \<notin> set fixed_strategies"
  unfolding fixed_strategies_iff by simp

lemma calculate_payoff_covered_call:
  "calculate_payoff sf ''covered-call'' P0 U r legs =
     bindE (read_parameters sf (case P0 of None \<Rightarrow> Map.empty | Some d \<Rightarrow> d) (fixed_parameters ''covered-call'' U)) (\<lambda>vs.
       Inr (map (\<lambda>p. \<lparr>price = py_round2 p, pnl = py_round2 (fixed_pnl ''covered-call'' vs p)\<rparr>) (grid U r)))"
  by (simp add: calculate_payoff_def strategy_calculators_fixed calculate_covered_call_read)

lemma calculate_payoff_bull_call_spread:
  "calculate_payoff sf ''bull-call-spread'' P0 U r legs =
     bindE (read_parameters sf (case P0 of None \<Rightarrow> Map.empty | Some d \<Rightarrow> d) (fixed_parameters ''bull-call-spread'' U)) (\<lambda>vs.
       Inr (map (\<lambda>p. \<lparr>price = py_round2 p, pnl = py_round2 (fixed_pnl ''bull-call-spread'' vs p)\<rparr>) (grid U r)))"
  by (simp add: calculate_payoff_def strategy_calculators_fixed calculate_bull_call_spread_read)

lemma calculate_payoff_iron_condor:
  "calculate_payoff sf ''iron-condor'' P0 U r legs =
     bindE (read_parameters sf (case P0 of None \<Rightarrow> Map.empty | Some d \<Rightarrow> d) (fixed_parameters ''iron-condor'' U)) (\<lambda>vs.
       Inr (map (\<lambda>p. \<lparr>price = py_round2 p, pnl = py_round2 (fixed_pnl ''iron-condor'' vs p)\<rparr>) (grid U r)))"
  by (simp add: calculate_payoff_def strategy_calculators_fixed calculate_iron_condor_read)

lemma calculate_payoff_long_straddle:
  "calculate_payoff sf ''long-straddle'' P0 U r legs =
     bindE (read_parameters sf (case P0 of None \<Rightarrow> Map.empty | Some d \<Rightarrow> d) (fixed_parameters ''long-straddle'' U)) (\<lambda>vs.
       Inr (map (\<lambda>p. \<lparr>price = py_round2 p, pnl = py_round2 (fixed_pnl ''long-straddle'' vs p)\<rparr>) (grid U r)))"
  by (simp add: calculate_payoff_def strategy_calculators_fixed calculate_long_straddle_read)

lemma calculate_payoff_protective_put:
  "calculate_payoff sf ''protective-put'' P0 U r legs =
     bindE (read_parameters sf (case P0 of None \<Rightarrow> Map.empty | Some d \<Rightarrow> d) (fixed_parameters ''protective-put'' U)) (\<lambda>vs.
       Inr (map (\<lambda>p. \<lparr>price = py_round2 p, pnl = py_round2 (fixed_pnl ''protective-put'' vs p)\<rparr>) (grid U r)))"
  by (simp add: calculate_payoff_def strategy_calculators_fixed calculate_protective_put_read)

lemma calculate_payoff_butterfly_spread:
  "calculate_payoff sf ''butterfly-spread'' P0 U r legs =
     bindE (read_parameters sf (case P0 of None \<Rightarrow> Map.empty | Some d \<Rightarrow> d) (fixed_parameters ''butterfly-spread'' U)) (\<lambda>vs.
       Inr (map (\<lambda>p. \<lparr>price = py_round2 p, pnl = py_round2 (fixed_pnl ''butterfly-spread'' vs p)\<rparr>) (grid U r)))"
  by (simp add: calculate_payoff_def strategy_calculators_fixed calculate_butterfly_spread_read)

lemma calculate_payoff_fixed:
  assumes "st \<in> set fixed_strategies"
  shows "calculate_payoff sf st P0 U r legs =
     bindE (read_parameters sf (case P0 of None \<Rightarrow> Map.empty | Some d \<Rightarrow> d) (fixed_parameters st U)) (\<lambda>vs.
       Inr (map (\<lambda>p. \<lparr>price = py_round2 p, pnl = py_round2 (fixed_pnl st vs p)\<rparr>) (grid U r)))"
proof -
  from assms have "st = ''covered-call'' \<or> st = ''bull-call-spread'' \<or> st = ''iron-condor''
    \<or> st = ''long-straddle'' \<or> st = ''protective-put'' \<or> st = ''butterfly-spread''"
    by (simp only: fixed_strategies_iff)
  then show ?thesis
  proof (elim disjE)
    assume "st = ''covered-call''"
    then show ?thesis by (simp only: calculate_payoff_covered_call)
  next
    assume "st = ''bull-call-spread''"
    then show ?thesis by (simp only: calculate_payoff_bull_call_spread)
  next
    assume "st = ''iron-condor''"
    then show ?thesis by (simp only: calculate_payoff_iron_condor)
  next
    assume "st = ''long-straddle''"
    then show ?thesis by (simp only: calculate_payoff_long_straddle)
  next
    assume "st = ''protective-put''"
    then show ?thesis by (simp only: calculate_payoff_protective_put)
  next
    assume "st = ''butterfly-spread''"
    then show ?thesis by (simp only: calculate_payoff_butterfly_spread)
  qed
qed

lemma py_float_Inl:
  "py_float sf v = Inl e \<Longrightarrow> e = OverflowError \<or> e = TypeError \<or> (\<exists>s. v = PyStr s \<and> sf s = None \<and> e = FloatValueError s)"
  by (cases v) (auto dest: int_to_float_Inl split: option.splits)

lemma read_parameters_Inl:
  "read_parameters sf P specs = Inl e \<Longrightarrow> \<exists>(k, d) \<in> set specs. py_float sf (dict_get P k d) = Inl e"
  unfolding read_parameters_def by (drule mapE_Inl) auto

lemma mapE_fails: "x \<in> set xs \<Longrightarrow> f x = Inl e \<Longrightarrow> \<exists>e'. mapE f xs = Inl e'"
proof (induction xs)
  case Nil then show ?case by simp
next
  case (Cons y ys)
  then show ?case by (cases "f y"; cases "mapE f ys") auto
qed

lemma read_parameters_fails:
  "(k, d) \<in> set specs \<Longrightarrow> py_float sf (dict_get P k d) = Inl e \<Longrightarrow> \<exists>e'. read_parameters sf P specs = Inl e'"
  unfolding read_parameters_def by (rule mapE_fails [where x = "(k, d)"]) auto

lemma default_converts:
  assumes "(k, d) \<in> set (fixed_parameters st U)"
  shows "\<exists>x. py_float sf d = Inr x"
proof -
  from assms have "(\<exists>a. d = PyFloat a) \<or> (\<exists>i. d = PyInt i \<and> \<bar>i\<bar> \<le> 2 ^ 53)"
    unfolding fixed_parameters_def by (auto split: if_splits)
  then show ?thesis by (auto simp: int_to_float_small)
qed

lemma read_parameters_covered_call:
  "read_parameters sf P (fixed_parameters ''covered-call'' U) =
     bindE (py_float sf (dict_get P ''futuresPrice'' (PyFloat U))) (\<lambda>a.
     bindE (py_float sf (dict_get P ''callStrike'' (PyFloat (fadd U (Fin 500))))) (\<lambda>b.
     bindE (py_float sf (dict_get P ''premium'' (PyInt 200))) (\<lambda>c.
     bindE (py_float sf (dict_get P ''futuresLotSize'' (PyInt 50))) (\<lambda>d.
     bindE (py_float sf (dict_get P ''callLotSize'' (PyInt 50))) (\<lambda>e.
     Inr [a, b, c, d, e])))))"
  by (simp add: read_parameters_def fixed_parameters_def bindE_assoc)

lemma read_parameters_iron_condor:
  "read_parameters sf P (fixed_parameters ''iron-condor'' U) =
     bindE (py_float sf (dict_get P ''lotSize'' (PyInt 50))) (\<lambda>a.
     bindE (py_float sf (dict_get P ''putBuyStrike'' (PyFloat (fsub U (Fin 1000))))) (\<lambda>b.
     bindE (py_float sf (dict_get P ''putSellStrike'' (PyFloat (fsub U (Fin 500))))) (\<lambda>c.
     bindE (py_float sf (dict_get P ''callSellStrike'' (PyFloat (fadd U (Fin 500))))) (\<lambda>d.
     bindE (py_float sf (dict_get P ''callBuyStrike'' (PyFloat (fadd U (Fin 1000))))) (\<lambda>e.
     bindE (py_float sf (dict_get P ''netPremium'' (PyInt 100))) (\<lambda>f.
     Inr [a, b, c, d, e, f]))))))"
  by (simp add: read_parameters_def fixed_parameters_def bindE_assoc)

lemma flt_irrefl [simp]: "\<not> flt a a"
  by (cases a) simp_all

lemma int_to_float_numeral [simp]:
  "numeral n \<le> (2 ^ 53 :: int) \<Longrightarrow> int_to_float (numeral n) = Inr (Fin (numeral n))"
  using int_to_float_small [of "numeral n"] by simp

section \<open>Covered call\<close>

text \<open>
  \<^bold>\<open>C2\<close>. When the five parameters convert to floats, the covered-call calculator returns
  one point per grid price with \<open>pnl = round(futPnl + callPnl, 2)\<close>, the two summands
  being those of the specification (\<open>covered_call_pnl\<close>). A price equal to the strike takes
  the \<open>price \<le> strike\<close> branch, and in the concrete scenario the P&L at 18500 is 35000.
\<close>

theorem C2_covered_call:
  assumes "py_float sf (dict_get P ''futuresPrice'' (PyFloat U)) = Inr fp"
    and "py_float sf (dict_get P ''callStrike'' (PyFloat (fadd U (Fin 500)))) = Inr cs"
    and "py_float sf (dict_get P ''premium'' (PyInt 200)) = Inr pr"
    and "py_float sf (dict_get P ''futuresLotSize'' (PyInt 50)) = Inr fls"
    and "py_float sf (dict_get P ''callLotSize'' (PyInt 50)) = Inr cls"
  shows "calculate_covered_call sf P U r =
      Inr (map (\<lambda>p. \<lparr>price = py_round2 p, pnl = py_round2 (covered_call_pnl fp cs pr fls cls p)\<rparr>)
        (grid U r)) \<and>
    calculate_price_range U r 50 = Inr (grid U r) \<and>
    covered_call_pnl fp (Fin x) pr fls cls (Fin x) = fadd (fmul (fsub (Fin x) fp) fls) (fmul pr cls) \<and>
    covered_call_pnl (Fin 18000) (Fin 18500) (Fin 200) (Fin 50) (Fin 50) (Fin 18500) = Fin 35000"
proof (intro conjI)
  show "calculate_covered_call sf P U r =
      Inr (map (\<lambda>p. \<lparr>price = py_round2 p, pnl = py_round2 (covered_call_pnl fp cs pr fls cls p)\<rparr>)
        (grid U r))"
    using assms
    by (simp add: calculate_covered_call_read read_parameters_covered_call fixed_pnl_def)
  show "calculate_price_range U r 50 = Inr (grid U r)"
    by (rule calculate_price_range_grid)
  show "covered_call_pnl fp (Fin x) pr fls cls (Fin x) = fadd (fmul (fsub (Fin x) fp) fls) (fmul pr cls)"
    by (simp add: covered_call_pnl_def Let_def fle_def)
  show "covered_call_pnl (Fin 18000) (Fin 18500) (Fin 200) (Fin 50) (Fin 50) (Fin 18500) = Fin 35000"
    by (simp add: covered_call_pnl_def Let_def fle_def fsub_def fl_numeral)
qed

theorem C2_covered_call_witness:
  "py_float example_parse (dict_get example_covered_call ''futuresPrice'' (PyFloat (Fin 18000))) = Inr (Fin 18000) \<and>
   py_float example_parse (dict_get example_covered_call ''callStrike'' (PyFloat (fadd (Fin 18000) (Fin 500)))) = Inr (Fin 18500) \<and>
   py_float example_parse (dict_get example_covered_call ''premium'' (PyInt 200)) = Inr (Fin 200) \<and>
   py_float example_parse (dict_get example_covered_call ''futuresLotSize'' (PyInt 50)) = Inr (Fin 50) \<and>
   py_float example_parse (dict_get example_covered_call ''callLotSize'' (PyInt 50)) = Inr (Fin 50) \<and>
   calculate_covered_call example_parse example_covered_call (Fin 18000) (Fin 30) =
      Inr (map (\<lambda>p. \<lparr>price = py_round2 p,
                      pnl = py_round2 (covered_call_pnl (Fin 18000) (Fin 18500) (Fin 200) (Fin 50) (Fin 50) p)\<rparr>)
        (grid (Fin 18000) (Fin 30))) \<and>
   calculate_price_range (Fin 18000) (Fin 30) 50 = Inr (grid (Fin 18000) (Fin 30)) \<and>
   covered_call_pnl (Fin 18000) (Fin 18500) (Fin 200) (Fin 50) (Fin 50) (Fin 18500) =
     fadd (fmul (fsub (Fin 18500) (Fin 18000)) (Fin 50)) (fmul (Fin 200) (Fin 50)) \<and>
   covered_call_pnl (Fin 18000) (Fin 18500) (Fin 200) (Fin 50) (Fin 50) (Fin 18500) = Fin 35000"
proof -
  have h: "py_float example_parse (dict_get example_covered_call ''futuresPrice'' (PyFloat (Fin 18000))) = Inr (Fin 18000)"
    "py_float example_parse (dict_get example_covered_call ''callStrike'' (PyFloat (fadd (Fin 18000) (Fin 500)))) = Inr (Fin 18500)"
    "py_float example_parse (dict_get example_covered_call ''premium'' (PyInt 200)) = Inr (Fin 200)"
    "py_float example_parse (dict_get example_covered_call ''futuresLotSize'' (PyInt 50)) = Inr (Fin 50)"
    "py_float example_parse (dict_get example_covered_call ''callLotSize'' (PyInt 50)) = Inr (Fin 50)"
    by (simp_all add: example_parse_def example_covered_call_def dict_get_def)
  from C2_covered_call [OF h, of "Fin 30" 18500] h show ?thesis by blast
qed

section \<open>Iron condor\<close>

text \<open>
  \<^bold>\<open>C3\<close>. When the six parameters convert to floats, the iron-condor calculator returns
  one point per grid price with \<open>pnl = round(iron_condor_pnl, 2)\<close>, the formula of the
  specification; with no parameters given the defaults are \<open>U - 1000\<close>, \<open>U - 500\<close>,
  \<open>U + 500\<close>, \<open>U + 1000\<close>, 100 and 50; and a price that is not strictly beyond a strike
  (in particular one equal to it) keeps the premium: the comparisons are strict.
\<close>

theorem C3_iron_condor:
  assumes "py_float sf (dict_get P ''lotSize'' (PyInt 50)) = Inr lot"
    and "py_float sf (dict_get P ''putBuyStrike'' (PyFloat (fsub U (Fin 1000)))) = Inr pbs"
    and "py_float sf (dict_get P ''putSellStrike'' (PyFloat (fsub U (Fin 500)))) = Inr pss"
    and "py_float sf (dict_get P ''callSellStrike'' (PyFloat (fadd U (Fin 500)))) = Inr css"
    and "py_float sf (dict_get P ''callBuyStrike'' (PyFloat (fadd U (Fin 1000)))) = Inr cbs"
    and "py_float sf (dict_get P ''netPremium'' (PyInt 100)) = Inr np"
  shows "calculate_iron_condor sf P U r =
      Inr (map (\<lambda>p. \<lparr>price = py_round2 p, pnl = py_round2 (iron_condor_pnl pbs pss css cbs np lot p)\<rparr>)
        (grid U r)) \<and>
    calculate_iron_condor sf Map.empty U r =
      Inr (map (\<lambda>p. \<lparr>price = py_round2 p,
                      pnl = py_round2 (iron_condor_pnl (fsub U (Fin 1000)) (fsub U (Fin 500))
                              (fadd U (Fin 500)) (fadd U (Fin 1000)) (Fin 100) (Fin 50) p)\<rparr>)
        (grid U r)) \<and>
    (\<not> flt q pbs \<and> \<not> flt q pss \<and> \<not> fgt q cbs \<and> \<not> fgt q css \<longrightarrow>
       iron_condor_pnl pbs pss css cbs np lot q = fmul np lot) \<and>
    \<not> flt q q \<and> \<not> fgt q q"
proof (intro conjI impI)
  show "calculate_iron_condor sf P U r =
      Inr (map (\<lambda>p. \<lparr>price = py_round2 p, pnl = py_round2 (iron_condor_pnl pbs pss css cbs np lot p)\<rparr>)
        (grid U r))"
    using assms
    by (simp add: calculate_iron_condor_read read_parameters_iron_condor fixed_pnl_def)
  show "calculate_iron_condor sf Map.empty U r =
      Inr (map (\<lambda>p. \<lparr>price = py_round2 p,
                      pnl = py_round2 (iron_condor_pnl (fsub U (Fin 1000)) (fsub U (Fin 500))
                              (fadd U (Fin 500)) (fadd U (Fin 1000)) (Fin 100) (Fin 50) p)\<rparr>)
        (grid U r))"
    by (simp add: calculate_iron_condor_read read_parameters_iron_condor fixed_pnl_def dict_get_def)
  show "iron_condor_pnl pbs pss css cbs np lot q = fmul np lot"
    if "\<not> flt q pbs \<and> \<not> flt q pss \<and> \<not> fgt q cbs \<and> \<not> fgt q css"
    using that by (simp add: iron_condor_pnl_def Let_def)
  show "\<not> flt q q" by simp
  show "\<not> fgt q q" by (simp add: fgt_def)
qed

theorem C3_iron_condor_witness:
  "py_float Map.empty (dict_get Map.empty ''lotSize'' (PyInt 50)) = Inr (Fin 50) \<and>
   py_float Map.empty (dict_get Map.empty ''putBuyStrike'' (PyFloat (fsub (Fin 18000) (Fin 1000)))) = Inr (Fin 17000) \<and>
   py_float Map.empty (dict_get Map.empty ''putSellStrike'' (PyFloat (fsub (Fin 18000) (Fin 500)))) = Inr (Fin 17500) \<and>
   py_float Map.empty (dict_get Map.empty ''callSellStrike'' (PyFloat (fadd (Fin 18000) (Fin 500)))) = Inr (Fin 18500) \<and>
   py_float Map.empty (dict_get Map.empty ''callBuyStrike'' (PyFloat (fadd (Fin 18000) (Fin 1000)))) = Inr (Fin 19000) \<and>
   py_float Map.empty (dict_get Map.empty ''netPremium'' (PyInt 100)) = Inr (Fin 100) \<and>
   (\<not> flt (Fin 17500) (Fin 17000) \<and> \<not> flt (Fin 17500) (Fin 17500) \<and>
    \<not> fgt (Fin 17500) (Fin 19000) \<and> \<not> fgt (Fin 17500) (Fin 18500)) \<and>
   calculate_iron_condor Map.empty Map.empty (Fin 18000) (Fin 30) =
      Inr (map (\<lambda>p. \<lparr>price = py_round2 p,
             pnl = py_round2 (iron_condor_pnl (Fin 17000) (Fin 17500) (Fin 18500) (Fin 19000) (Fin 100) (Fin 50) p)\<rparr>)
        (grid (Fin 18000) (Fin 30))) \<and>
   iron_condor_pnl (Fin 17000) (Fin 17500) (Fin 18500) (Fin 19000) (Fin 100) (Fin 50) (Fin 17500)
     = fmul (Fin 100) (Fin 50)"
proof -
  have h: "py_float Map.empty (dict_get Map.empty ''lotSize'' (PyInt 50)) = Inr (Fin 50)"
   "py_float Map.empty (dict_get Map.empty ''putBuyStrike'' (PyFloat (fsub (Fin 18000) (Fin 1000)))) = Inr (Fin 17000)"
   "py_float Map.empty (dict_get Map.empty ''putSellStrike'' (PyFloat (fsub (Fin 18000) (Fin 500)))) = Inr (Fin 17500)"
   "py_float Map.empty (dict_get Map.empty ''callSellStrike'' (PyFloat (fadd (Fin 18000) (Fin 500)))) = Inr (Fin 18500)"
   "py_float Map.empty (dict_get Map.empty ''callBuyStrike'' (PyFloat (fadd (Fin 18000) (Fin 1000)))) = Inr (Fin 19000)"
   "py_float Map.empty (dict_get Map.empty ''netPremium'' (PyInt 100)) = Inr (Fin 100)"
    by (simp_all add: dict_get_def fsub_def fl_numeral)
  have c: "\<not> flt (Fin 17500) (Fin 17000) \<and> \<not> flt (Fin 17500) (Fin 17500) \<and>
    \<not> fgt (Fin 17500) (Fin 19000) \<and> \<not> fgt (Fin 17500) (Fin 18500)"
    by (simp add: fgt_def)
  from C3_iron_condor [OF h, of "Fin 30" "Fin 17500"] h c show ?thesis by blast
qed

section \<open>Unknown strategy types\<close>

lemma foldE_Inl: "foldE f s xs = Inl e \<Longrightarrow> \<exists>s' x. x \<in> set xs \<and> f s' x = Inl e"
proof (induction xs arbitrary: s)
  case Nil then show ?case by simp
next
  case (Cons y ys)
  show ?case
  proof (cases "f s y")
    case (Inl e')
    with Cons.prems have "f s y = Inl e" by simp
    then show ?thesis by auto
  next
    case (Inr s')
    with Cons.prems have "foldE f s' ys = Inl e" by simp
    from Cons.IH [OF this] show ?thesis by auto
  qed
qed

lemma py_float_not_ValueError: "py_float sf v \<noteq> Inl (ValueError m)"
  using py_float_Inl [of sf v "ValueError m"] by auto

lemma leg_pnl_not_ValueError: "leg_pnl sf U p leg \<noteq> Inl (ValueError m)"
  unfolding leg_pnl_def Let_def
  by (auto simp: bindE_eq_Inl py_float_not_ValueError split: if_splits)

lemma calculate_custom_strategy_not_ValueError:
  "calculate_custom_strategy sf legs U r \<noteq> Inl (ValueError m)"
proof
  assume a: "calculate_custom_strategy sf legs U r = Inl (ValueError m)"
  have g: "calculate_price_range U r 50 = Inr (grid U r)" by (rule calculate_price_range_grid)
  from a have "foldE (\<lambda>payoff_data p.
       bindE (foldE (\<lambda>total_pnl leg.
                bindE (leg_pnl sf U p leg) (\<lambda>l. Inr (fadd total_pnl l)))
              (Fin 0) legs) (\<lambda>total_pnl.
       Inr (payoff_data @ [\<lparr>price = py_round2 p, pnl = py_round2 total_pnl\<rparr>])))
       [] (grid U r) = Inl (ValueError m)"
    by (simp add: calculate_custom_strategy_def g)
  from foldE_Inl [OF this] obtain p where
    "foldE (\<lambda>total_pnl leg. bindE (leg_pnl sf U p leg) (\<lambda>l. Inr (fadd total_pnl l)))
       (Fin 0) legs = Inl (ValueError m)"
    by (auto simp: bindE_eq_Inl)
  from foldE_Inl [OF this] obtain leg where "leg_pnl sf U p leg = Inl (ValueError m)"
    by (auto simp: bindE_eq_Inl)
  then show False by (simp add: leg_pnl_not_ValueError)
qed

lemma read_parameters_not_ValueError: "read_parameters sf P specs \<noteq> Inl (ValueError m)"
proof
  assume "read_parameters sf P specs = Inl (ValueError m)"
  from read_parameters_Inl [OF this] show False by (auto simp: py_float_not_ValueError)
qed

text \<open>
  \<^bold>\<open>C6\<close>. A strategy type that is neither \<open>custom-strategy\<close> nor one of the six fixed
  identifiers makes the dispatcher raise the \<^verbatim>\<open>ValueError\<close> with message
  \<open>Unknown strategy type:\<close> followed by the offending value, so that no curve is
  returned; for the seven known identifiers the dispatcher raises no \<^verbatim>\<open>ValueError\<close> of
  its own, whatever the parameters and the legs are.
\<close>

theorem C6_unknown_strategy:
  "(st \<noteq> ''custom-strategy'' \<and> st \<notin> set fixed_strategies \<longrightarrow>
      calculate_payoff sf st P0 U r legs = Inl (ValueError (''Unknown strategy type: '' @ st))) \<and>
   (st = ''custom-strategy'' \<or> st \<in> set fixed_strategies \<longrightarrow>
      (\<forall>m. calculate_payoff sf st P0 U r legs \<noteq> Inl (ValueError m)))"
proof (intro conjI impI allI)
  assume "st \<noteq> ''custom-strategy'' \<and> st \<notin> set fixed_strategies"
  then show "calculate_payoff sf st P0 U r legs = Inl (ValueError (''Unknown strategy type: '' @ st))"
    by (simp add: calculate_payoff_def strategy_calculators_unknown)
next
  fix m
  assume "st = ''custom-strategy'' \<or> st \<in> set fixed_strategies"
  then show "calculate_payoff sf st P0 U r legs \<noteq> Inl (ValueError m)"
  proof
    assume st: "st = ''custom-strategy''"
    show ?thesis
    proof (cases legs)
      case None
      with st show ?thesis by (simp add: calculate_payoff_def)
    next
      case (Some ls)
      with st show ?thesis
        by (cases ls) (simp_all add: calculate_payoff_def calculate_custom_strategy_not_ValueError)
    qed
  next
    assume "st \<in> set fixed_strategies"
    then show ?thesis
      by (simp add: calculate_payoff_fixed bindE_eq_Inl read_parameters_not_ValueError)
  qed
qed

theorem C6_unknown_strategy_witness:
  "(''not-a-strategy'' \<noteq> ''custom-strategy'' \<and> ''not-a-strategy'' \<notin> set fixed_strategies) \<and>
   calculate_payoff example_parse ''not-a-strategy'' None (Fin 18000) (Fin 30) None =
     Inl (ValueError ''Unknown strategy type: not-a-strategy'') \<and>
   (''iron-condor'' = ''custom-strategy'' \<or> ''iron-condor'' \<in> set fixed_strategies) \<and>
   calculate_payoff example_parse ''iron-condor'' None (Fin 18000) (Fin 30) None
     \<noteq> Inl (ValueError ''Unknown strategy type: iron-condor'')"
proof -
  have a: "''not-a-strategy'' \<noteq> ''custom-strategy'' \<and> ''not-a-strategy'' \<notin> set fixed_strategies"
    by (simp add: fixed_strategies_iff)
  have b: "''iron-condor'' = ''custom-strategy'' \<or> ''iron-condor'' \<in> set fixed_strategies"
    by (simp add: fixed_strategies_iff)
  from C6_unknown_strategy [of "''not-a-strategy''" example_parse None "Fin 18000" "Fin 30" None] a
  have c: "calculate_payoff example_parse ''not-a-strategy'' None (Fin 18000) (Fin 30) None =
     Inl (ValueError ''Unknown strategy type: not-a-strategy'')" by simp
  from C6_unknown_strategy [of "''iron-condor''" example_parse None "Fin 18000" "Fin 30" None] b
  have d: "calculate_payoff example_parse ''iron-condor'' None (Fin 18000) (Fin 30) None
     \<noteq> Inl (ValueError ''Unknown strategy type: iron-condor'')" by blast
  from a b c d show ?thesis by blast
qed

section \<open>Output of the fixed strategies\<close>

text \<open>
  \<^bold>\<open>C8\<close>. Whenever the dispatcher returns for one of the six fixed strategies, it returns
  50 points, one per price of the 50-point grid and in grid order; the \<open>price\<close> of a
  point is the grid price rounded to two decimals and its \<open>pnl\<close> is the strategy's formula
  at the unrounded grid price, evaluated on the parameters read, rounded to two decimals.
\<close>

theorem C8_fixed_output:
  assumes "st \<in> set fixed_strategies"
    and "calculate_payoff sf st P0 U r legs = Inr pts"
  shows "length pts = 50 \<and> calculate_price_range U r 50 = Inr (grid U r) \<and>
    (\<exists>vs. read_parameters sf (case P0 of None \<Rightarrow> Map.empty | Some d \<Rightarrow> d) (fixed_parameters st U) = Inr vs \<and>
       pts = map (\<lambda>p. \<lparr>price = py_round2 p, pnl = py_round2 (fixed_pnl st vs p)\<rparr>) (grid U r))"
proof -
  from assms obtain vs where
    vs: "read_parameters sf (case P0 of None \<Rightarrow> Map.empty | Some d \<Rightarrow> d) (fixed_parameters st U) = Inr vs"
    and pts: "pts = map (\<lambda>p. \<lparr>price = py_round2 p, pnl = py_round2 (fixed_pnl st vs p)\<rparr>) (grid U r)"
    by (auto simp: calculate_payoff_fixed bindE_eq_Inr)
  from pts have "length pts = 50" by simp
  with vs pts show ?thesis by (simp add: calculate_price_range_grid)
qed

theorem C8_fixed_output_witness:
  "''covered-call'' \<in> set fixed_strategies \<and>
   calculate_payoff example_parse ''covered-call'' (Some example_covered_call) (Fin 18000) (Fin 30) None =
     Inr (map (\<lambda>p. \<lparr>price = py_round2 p,
            pnl = py_round2 (covered_call_pnl (Fin 18000) (Fin 18500) (Fin 200) (Fin 50) (Fin 50) p)\<rparr>)
        (grid (Fin 18000) (Fin 30))) \<and>
   length (map (\<lambda>p. \<lparr>price = py_round2 p,
            pnl = py_round2 (covered_call_pnl (Fin 18000) (Fin 18500) (Fin 200) (Fin 50) (Fin 50) p)\<rparr>)
        (grid (Fin 18000) (Fin 30))) = 50"
proof -
  have a: "''covered-call'' \<in> set fixed_strategies" by (simp add: fixed_strategies_iff)
  have b: "calculate_payoff example_parse ''covered-call'' (Some example_covered_call) (Fin 18000) (Fin 30) None =
     Inr (map (\<lambda>p. \<lparr>price = py_round2 p,
            pnl = py_round2 (covered_call_pnl (Fin 18000) (Fin 18500) (Fin 200) (Fin 50) (Fin 50) p)\<rparr>)
        (grid (Fin 18000) (Fin 30)))"
    by (simp add: calculate_payoff_covered_call read_parameters_covered_call dict_get_def
        example_covered_call_def example_parse_def fixed_pnl_def)
  from C8_fixed_output [OF a b] a b show ?thesis by blast
qed

section \<open>Malformed parameters\<close>

lemma malformed_parameter:
  assumes st: "st \<in> set fixed_strategies"
    and k: "(k, d) \<in> set (fixed_parameters st U)"
    and P: "P k = Some (PyStr s)" and s: "sf s = None"
  shows "\<exists>e. calculate_payoff sf st (Some P) U r legs = Inl e"
    and "(\<forall>(k', d') \<in> set (fixed_parameters st U). k' \<noteq> k \<longrightarrow> (\<exists>x. py_float sf (dict_get P k' d') = Inr x))
      \<Longrightarrow> calculate_payoff sf st (Some P) U r legs = Inl (FloatValueError s)"
proof -
  have f: "py_float sf (dict_get P k d) = Inl (FloatValueError s)"
    using P s by (simp add: dict_get_def)
  from read_parameters_fails [OF k f] obtain e where
    e: "read_parameters sf P (fixed_parameters st U) = Inl e" by blast
  then show "\<exists>e. calculate_payoff sf st (Some P) U r legs = Inl e"
    by (simp add: calculate_payoff_fixed [OF st])
  assume o: "\<forall>(k', d') \<in> set (fixed_parameters st U). k' \<noteq> k \<longrightarrow> (\<exists>x. py_float sf (dict_get P k' d') = Inr x)"
  from read_parameters_Inl [OF e] obtain k' d' where
    m: "(k', d') \<in> set (fixed_parameters st U)" and f': "py_float sf (dict_get P k' d') = Inl e"
    by blast
  from o m f' have "k' = k" by force
  with f' P s have "e = FloatValueError s" by (simp add: dict_get_def)
  with e show "calculate_payoff sf st (Some P) U r legs = Inl (FloatValueError s)"
    by (simp add: calculate_payoff_fixed [OF st])
qed

text \<open>
  \<^bold>\<open>C9\<close>. If a recognised key of a fixed strategy is given as a string that \<^verbatim>\<open>float\<close>
  cannot read, the calculation raises and no curve is returned. When the other recognised
  keys convert (absent keys always do), the exception is the \<^verbatim>\<open>ValueError\<close> of \<^verbatim>\<open>float\<close>,
  which the endpoint answers with status 400; it carries the offending string and not the
  name of the field.
\<close>

theorem C9_malformed_parameter:
  assumes "st \<in> set fixed_strategies"
    and "(k, d) \<in> set (fixed_parameters st U)"
    and "P k = Some (PyStr s)" and "sf s = None"
  shows "(\<exists>e. calculate_payoff sf st (Some P) U r legs = Inl e) \<and>
    ((\<forall>(k', d') \<in> set (fixed_parameters st U). k' \<noteq> k \<longrightarrow> (\<exists>x. py_float sf (dict_get P k' d') = Inr x)) \<longrightarrow>
       calculate_payoff sf st (Some P) U r legs = Inl (FloatValueError s) \<and>
       calculate_payoff_endpoint sf st (Some P) U r legs = Inl (400, FloatValueError s))"
  using malformed_parameter [where P = P and k = k and sf = sf and s = s and r = r and legs = legs, OF assms]
  by (simp add: calculate_payoff_endpoint_def is_ValueError_def)

theorem C9_malformed_parameter_witness:
  "''covered-call'' \<in> set fixed_strategies \<and>
   (''premium'', PyInt 200) \<in> set (fixed_parameters ''covered-call'' (Fin 18000)) \<and>
   example_malformed_premium ''premium'' = Some (PyStr ''abc'') \<and>
   example_parse ''abc'' = None \<and>
   py_float example_parse (dict_get example_malformed_premium ''futuresPrice'' (PyFloat (Fin 18000)))
     = Inr (Fin 18000) \<and>
   py_float example_parse (dict_get example_malformed_premium ''callStrike'' (PyFloat (fadd (Fin 18000) (Fin 500))))
     = Inr (fadd (Fin 18000) (Fin 500)) \<and>
   py_float example_parse (dict_get example_malformed_premium ''futuresLotSize'' (PyInt 50)) = Inr (Fin 50) \<and>
   py_float example_parse (dict_get example_malformed_premium ''callLotSize'' (PyInt 50)) = Inr (Fin 50) \<and>
   calculate_payoff_endpoint example_parse ''covered-call'' (Some example_malformed_premium)
     (Fin 18000) (Fin 30) None = Inl (400, FloatValueError ''abc'')"
proof -
  have a: "''covered-call'' \<in> set fixed_strategies" by (simp add: fixed_strategies_iff)
  have b: "(''premium'', PyInt 200) \<in> set (fixed_parameters ''covered-call'' (Fin 18000))"
    by (simp add: fixed_parameters_def)
  have c: "example_malformed_premium ''premium'' = Some (PyStr ''abc'')"
    by (simp add: example_malformed_premium_def)
  have d: "example_parse ''abc'' = None" by (simp add: example_parse_def)
  have f: "py_float example_parse (dict_get example_malformed_premium ''futuresPrice'' (PyFloat (Fin 18000)))
     = Inr (Fin 18000)"
    "py_float example_parse (dict_get example_malformed_premium ''callStrike'' (PyFloat (fadd (Fin 18000) (Fin 500))))
     = Inr (fadd (Fin 18000) (Fin 500))"
    "py_float example_parse (dict_get example_malformed_premium ''futuresLotSize'' (PyInt 50)) = Inr (Fin 50)"
    "py_float example_parse (dict_get example_malformed_premium ''callLotSize'' (PyInt 50)) = Inr (Fin 50)"
    by (simp_all add: dict_get_def example_malformed_premium_def)
  have e: "\<forall>(k', d') \<in> set (fixed_parameters ''covered-call'' (Fin 18000)). k' \<noteq> ''premium'' \<longrightarrow>
      (\<exists>x. py_float example_parse (dict_get example_malformed_premium k' d') = Inr x)"
    using f by (simp add: fixed_parameters_def)
  from C9_malformed_parameter [where P = example_malformed_premium and k = "''premium''"
      and sf = example_parse and s = "''abc''" and r = "Fin 30" and legs = None, OF a b c d] a b c d e f
  show ?thesis by blast
qed

text \<open>
  The same unreadable string under two different keys raises the same exception: nothing
  in it tells which field was malformed.
\<close>

theorem C9_field_not_named_counterexample:
  "calculate_payoff example_parse ''covered-call'' (Some example_malformed_premium)
     (Fin 18000) (Fin 30) None = Inl (FloatValueError ''abc'') \<and>
   calculate_payoff example_parse ''covered-call'' (Some example_malformed_strike)
     (Fin 18000) (Fin 30) None = Inl (FloatValueError ''abc'')"
  by (simp add: calculate_payoff_covered_call read_parameters_covered_call dict_get_def
      example_malformed_premium_def example_malformed_strike_def example_parse_def)

section \<open>Monotonicity and accuracy of rounding\<close>

lemma overflow_threshold_not_le [simp]: "\<not> overflow_threshold \<le> 0"
  using overflow_threshold_pos by (simp only: not_le)

lemma rhe_zero [simp]: "rhe 0 = 0"
  using rhe_of_int [of 0] by simp

lemma rnd_zero [simp]: "rnd 0 = 0"
  by (simp add: rnd_def)

lemma fl_rnd:
  "fl x = (if overflow_threshold \<le> \<bar>rnd x\<bar> then (if 0 < x then PInf else NInf) else Fin (rnd x))"
proof (cases "x = 0")
  case True
  then show ?thesis by (simp add: fl_def)
next
  case False
  then show ?thesis by (simp add: fl_alt rnd_def)
qed

lemma rhe_minus: "rhe (- x) = - rhe x"
proof (cases "x = of_int \<lfloor>x\<rfloor>")
  case True
  then obtain n where "x = of_int n" ..
  then have "- x = of_int (- n)" by simp
  then show ?thesis using \<open>x = of_int n\<close> by (simp only: rhe_of_int)
next
  case False
  have lt: "of_int \<lfloor>x\<rfloor> < x" using False floor_correct [of x] by linarith
  have u: "x < of_int \<lfloor>x\<rfloor> + 1" using floor_correct [of x] by simp
  have f: "\<lfloor>- x\<rfloor> = - \<lfloor>x\<rfloor> - 1"
  proof (rule floor_unique)
    show "of_int (- \<lfloor>x\<rfloor> - 1) \<le> - x" using u by simp
    show "- x < of_int (- \<lfloor>x\<rfloor> - 1) + 1" using lt by simp
  qed
  have e: "even (- \<lfloor>x\<rfloor> - 1) \<longleftrightarrow> odd \<lfloor>x\<rfloor>" by simp
  show ?thesis
    unfolding rhe_def Let_def f e using lt u
    by (auto simp: not_less)
qed

lemma rhe_err: "\<bar>of_int (rhe x) - x\<bar> \<le> 1 / 2"
proof -
  have "of_int \<lfloor>x\<rfloor> \<le> x" "x < of_int \<lfloor>x\<rfloor> + 1" using floor_correct [of x] by simp_all
  then show ?thesis by (auto simp: rhe_def Let_def abs_le_iff)
qed

lemma ilog2_mono: "0 < x \<Longrightarrow> x \<le> y \<Longrightarrow> ilog2 x \<le> ilog2 y"
proof -
  assume x: "0 < x" and xy: "x \<le> y"
  then have y: "0 < y" by simp
  have "(2::rat) powi ilog2 x < 2 powi (ilog2 y + 1)"
    using ilog2_bounds(1) [OF x] ilog2_bounds(2) [OF y] xy by linarith
  then have "ilog2 x < ilog2 y + 1" by (rule two_powi_less_cancel)
  then show ?thesis by simp
qed

lemma fexp_minus [simp]: "fexp (- x) = fexp x"
  by (simp add: fexp_def)

lemma rnd_minus: "rnd (- x) = - rnd x"
  by (simp add: rnd_def rhe_minus)

lemma rnd_nonneg: "0 \<le> x \<Longrightarrow> 0 \<le> rnd x"
proof -
  assume "0 \<le> x"
  then have "of_int 0 \<le> x / 2 powi fexp x" by simp
  then have "0 \<le> rhe (x / 2 powi fexp x)" by (rule rhe_ge)
  then show ?thesis by (simp add: rnd_def)
qed

lemma rnd_mono_pos:
  assumes x: "0 < x" and xy: "x \<le> y"
  shows "rnd x \<le> rnd y"
proof -
  have y: "0 < y" using x xy by simp
  define kx where "kx = ilog2 x"
  define ky where "ky = ilog2 y"
  have ex: "fexp x = max (kx - 52) (- 1074)" and ey: "fexp y = max (ky - 52) (- 1074)"
    using x y by (simp_all add: fexp_def kx_def ky_def)
  have k: "kx \<le> ky" unfolding kx_def ky_def by (rule ilog2_mono [OF x xy])
  have bx: "x < 2 powi (kx + 1)" unfolding kx_def by (rule ilog2_bounds(2) [OF x])
  have by': "2 powi ky \<le> y" unfolding ky_def by (rule ilog2_bounds(1) [OF y])
  show ?thesis
  proof (cases "fexp x = fexp y")
    case True
    have "x / 2 powi fexp y \<le> y / 2 powi fexp y" using xy by (simp add: divide_right_mono)
    then have "rhe (x / 2 powi fexp y) \<le> rhe (y / 2 powi fexp y)" by (rule rhe_mono)
    then have "(of_int (rhe (x / 2 powi fexp y)) :: rat) \<le> of_int (rhe (y / 2 powi fexp y))"
      by simp
    then show ?thesis unfolding rnd_def True by (simp add: mult_right_mono)
  next
    case False
    with k ex ey have lt: "fexp x < fexp y" by auto
    with ex ey have eyn: "fexp y = ky - 52" and kk: "kx + 1 \<le> ky" by auto
    define j where "j = max (kx + 1) (fexp x)"
    have jk: "j \<le> ky" using kk lt eyn by (simp add: j_def)
    have je: "fexp x \<le> j" by (simp add: j_def)
    have "x < 2 powi j" using bx two_powi_mono [of "kx + 1" j] by (simp add: j_def)
    then have "x / 2 powi fexp x \<le> 2 powi j / 2 powi fexp x" by (simp add: divide_right_mono)
    also have "\<dots> = 2 powi (j - fexp x)" by (simp add: two_powi_diff)
    also have "\<dots> = of_int (2 ^ nat (j - fexp x))" using je by (simp add: power_int_def)
    finally have "rhe (x / 2 powi fexp x) \<le> 2 ^ nat (j - fexp x)" by (rule rhe_le)
    then have "(of_int (rhe (x / 2 powi fexp x)) :: rat) \<le> of_int (2 ^ nat (j - fexp x))"
      by (simp only: of_int_le_iff)
    also have "\<dots> = 2 powi (j - fexp x)" using je by (simp add: power_int_def)
    finally have "rnd x \<le> 2 powi (j - fexp x) * 2 powi fexp x"
      unfolding rnd_def by (simp add: mult_right_mono)
    also have "\<dots> = 2 powi j" by (simp flip: two_powi_split)
    finally have a: "rnd x \<le> 2 powi j" .
    have "of_int (2 ^ 52) = (2::rat) powi (ky - fexp y)" by (simp add: eyn)
    also have "\<dots> = 2 powi ky / 2 powi fexp y" by (simp add: two_powi_diff)
    also have "\<dots> \<le> y / 2 powi fexp y" using by' by (simp add: divide_right_mono)
    finally have "2 ^ 52 \<le> rhe (y / 2 powi fexp y)" by (rule rhe_ge)
    then have "(of_int (2 ^ 52) :: rat) \<le> of_int (rhe (y / 2 powi fexp y))"
      by (simp only: of_int_le_iff)
    then have "of_int (2 ^ 52) * 2 powi fexp y \<le> rnd y"
      unfolding rnd_def by (simp add: mult_right_mono)
    moreover have "of_int (2 ^ 52) * 2 powi fexp y = (2::rat) powi ky"
      using two_powi_split [of 52 "ky - 52"] by (simp add: eyn)
    ultimately have b: "2 powi ky \<le> rnd y" by simp
    from a b two_powi_mono [OF jk] show ?thesis by linarith
  qed
qed

lemma rnd_mono: "x \<le> y \<Longrightarrow> rnd x \<le> rnd y"
proof -
  assume xy: "x \<le> y"
  consider "0 < x" | "x \<le> 0" "0 \<le> y" | "y < 0" using xy by linarith
  then show ?thesis
  proof cases
    case 1 then show ?thesis using xy by (rule rnd_mono_pos)
  next
    case 2
    have "rnd x = - rnd (- x)" by (simp add: rnd_minus)
    moreover have "0 \<le> rnd (- x)" using 2 by (intro rnd_nonneg) simp
    moreover have "0 \<le> rnd y" using 2 by (intro rnd_nonneg)
    ultimately show ?thesis by linarith
  next
    case 3
    then have "rnd (- y) \<le> rnd (- x)" using xy by (intro rnd_mono_pos) simp_all
    then show ?thesis by (simp add: rnd_minus)
  qed
qed

lemma fl_mono: "x \<le> y \<Longrightarrow> fle (fl x) (fl y)"
proof -
  assume xy: "x \<le> y"
  have r: "rnd x \<le> rnd y" using xy by (rule rnd_mono)
  have px: "0 < x \<Longrightarrow> 0 \<le> rnd x" and py: "0 < y \<Longrightarrow> 0 \<le> rnd y"
    by (simp_all add: rnd_nonneg)
  have nx: "\<not> 0 < x \<Longrightarrow> rnd x \<le> 0" and ny: "\<not> 0 < y \<Longrightarrow> rnd y \<le> 0"
    using rnd_nonneg [of "- x"] rnd_nonneg [of "- y"] by (simp_all add: rnd_minus)
  show ?thesis
    using r xy px py nx ny overflow_threshold_pos
    by (auto simp: fl_rnd fle_def split: if_splits)
qed

lemma fl_mono_Fin: "fl x = Fin a \<Longrightarrow> fl y = Fin b \<Longrightarrow> x \<le> y \<Longrightarrow> a \<le> b"
  using fl_mono [of x y] by (auto simp: fle_def)

lemma fl_minus: "fl (- x) = fneg (fl x)"
  by (cases "x = 0") (auto simp: fl_rnd rnd_minus)

lemma fl_error:
  assumes "fl x = Fin y"
  shows "\<bar>y - x\<bar> \<le> \<bar>x\<bar> / 2 ^ 53 + 1 / 2 ^ 1075"
proof (cases "x = 0")
  case True
  with assms show ?thesis by simp
next
  case False
  then have ax: "0 < \<bar>x\<bar>" by simp
  from assms have y: "y = rnd x" by (simp add: fl_rnd split: if_splits)
  define e where "e = fexp x"
  have "\<bar>of_int (rhe (x / 2 powi e)) - x / 2 powi e\<bar> * 2 powi e \<le> 1 / 2 * 2 powi e"
    by (intro mult_right_mono rhe_err) simp
  moreover have "\<bar>of_int (rhe (x / 2 powi e)) - x / 2 powi e\<bar> * 2 powi e = \<bar>rnd x - x\<bar>"
  proof -
    have "\<bar>of_int (rhe (x / 2 powi e)) - x / 2 powi e\<bar> * 2 powi e
        = \<bar>(of_int (rhe (x / 2 powi e)) - x / 2 powi e) * 2 powi e\<bar>"
      by (simp add: abs_mult)
    also have "(of_int (rhe (x / 2 powi e)) - x / 2 powi e) * 2 powi e = rnd x - x"
      by (simp add: rnd_def e_def algebra_simps)
    finally show ?thesis .
  qed
  ultimately have h: "\<bar>rnd x - x\<bar> \<le> 2 powi e / 2" by simp
  have a: "(2::rat) powi e \<le> 2 powi (ilog2 \<bar>x\<bar> - 52) + 2 powi (- 1074)"
    unfolding e_def fexp_def by (cases "ilog2 \<bar>x\<bar> - 52 \<le> - 1074") (simp_all add: max_def)
  have b: "(2::rat) powi (ilog2 \<bar>x\<bar> - 52) = 2 powi ilog2 \<bar>x\<bar> / 2 ^ 52"
    by (simp add: two_powi_diff)
  have "2 powi ilog2 \<bar>x\<bar> \<le> \<bar>x\<bar>" by (rule ilog2_bounds(1) [OF ax])
  then have c: "2 powi ilog2 \<bar>x\<bar> / 2 ^ 52 \<le> \<bar>x\<bar> / 2 ^ 52"
    by (rule divide_right_mono) simp
  have d: "(2::rat) powi (- 1074) = 1 / 2 ^ 1074" by (simp add: power_int_minus_divide)
  from a b c d have "(2::rat) powi e \<le> \<bar>x\<bar> / 2 ^ 52 + 1 / 2 ^ 1074" by linarith
  then have "(2::rat) powi e / 2 \<le> (\<bar>x\<bar> / 2 ^ 52 + 1 / 2 ^ 1074) / 2" by simp
  also have "\<dots> = \<bar>x\<bar> / 2 ^ 53 + 1 / 2 ^ 1075" by (simp add: add_divide_distrib)
  finally show ?thesis using h y by simp
qed

lemma lin_sum3:
  fixes x :: rat
  assumes "x \<le> a + b" "a \<le> c + h" "c \<le> m + (1 / 16) * b"
  shows "x \<le> m + (17 / 16) * b + h"
  using assms by linarith

lemma lin_final:
  fixes a :: rat
  assumes "a \<le> m + (17 / 16) * b + h" "b \<le> (32 / 10) * w + (22 / 10) * h + (11 / 10) * n"
    "w \<le> 2 * m" "0 \<le> w" "0 \<le> h" "0 \<le> n"
  shows "a \<le> 8 * m + 4 * h + 4 * n"
  using assms by linarith

lemma lin_diff:
  fixes c :: rat
  assumes "\<bar>gx - (m + tx)\<bar> \<le> c + h" "\<bar>gy - (m + ty)\<bar> \<le> c + h"
  shows "(ty - tx) - 2 * c - 2 * h \<le> gy - gx"
  using assms by linarith

lemma spread_arith:
  fixes \<epsilon> \<eta> :: rat
  assumes e0: "0 \<le> \<epsilon>" and e1: "\<epsilon> \<le> 1 / 16" and h0: "0 \<le> \<eta>" and N: "1 \<le> N"
    and W0: "0 \<le> W" and WM: "W \<le> 2 * M"
    and D: "\<bar>D - W\<bar> \<le> \<epsilon> * W + \<eta>"
    and S: "\<bar>S - D\<bar> \<le> \<epsilon> * D + N * \<eta>"
  shows "\<epsilon> * D \<le> (17 / 16) * (\<epsilon> * W) + (1 / 16) * \<eta>"
    and "\<epsilon> * S \<le> (289 / 256) * (\<epsilon> * W) + (17 / 256) * \<eta> + \<epsilon> * (N * \<eta>)"
    and "\<epsilon> * S \<le> 3 * (\<epsilon> * M) + (1 / 8) * \<eta> + \<epsilon> * (N * \<eta>)"
proof -
  have small: "\<epsilon> * z \<le> (1 / 16) * z" if "0 \<le> z" for z
    by (rule mult_right_mono [OF e1 that])
  have eW0: "0 \<le> \<epsilon> * W" using e0 W0 by simp
  have D1: "D \<le> W + \<epsilon> * W + \<eta>" using D by linarith
  have "\<epsilon> * D \<le> \<epsilon> * (W + \<epsilon> * W + \<eta>)" by (rule mult_left_mono [OF D1 e0])
  then have eD: "\<epsilon> * D \<le> \<epsilon> * W + \<epsilon> * (\<epsilon> * W) + \<epsilon> * \<eta>" by (simp add: algebra_simps)
  show eD': "\<epsilon> * D \<le> (17 / 16) * (\<epsilon> * W) + (1 / 16) * \<eta>"
    using eD small [OF eW0] small [OF h0] by linarith
  have S1: "S \<le> D + \<epsilon> * D + N * \<eta>" using S by linarith
  have "\<epsilon> * S \<le> \<epsilon> * (D + \<epsilon> * D + N * \<eta>)" by (rule mult_left_mono [OF S1 e0])
  then have eS: "\<epsilon> * S \<le> \<epsilon> * D + \<epsilon> * (\<epsilon> * D) + \<epsilon> * (N * \<eta>)" by (simp add: algebra_simps)
  have X0: "0 \<le> (17 / 16) * (\<epsilon> * W) + (1 / 16) * \<eta>" using eW0 h0 by linarith
  have "\<epsilon> * (\<epsilon> * D) \<le> \<epsilon> * ((17 / 16) * (\<epsilon> * W) + (1 / 16) * \<eta>)"
    by (rule mult_left_mono [OF eD' e0])
  also have "\<dots> \<le> (1 / 16) * ((17 / 16) * (\<epsilon> * W) + (1 / 16) * \<eta>)"
    by (rule small [OF X0])
  also have "\<dots> = (17 / 256) * (\<epsilon> * W) + (1 / 256) * \<eta>" by simp
  finally have eeD: "\<epsilon> * (\<epsilon> * D) \<le> (17 / 256) * (\<epsilon> * W) + (1 / 256) * \<eta>" .
  have eM: "\<epsilon> * W \<le> 2 * (\<epsilon> * M)"
    using mult_left_mono [OF WM e0] by (simp add: algebra_simps)
  show eS': "\<epsilon> * S \<le> (289 / 256) * (\<epsilon> * W) + (17 / 256) * \<eta> + \<epsilon> * (N * \<eta>)"
    using eS eD' eeD by linarith
  show "\<epsilon> * S \<le> 3 * (\<epsilon> * M) + (1 / 8) * \<eta> + \<epsilon> * (N * \<eta>)"
    using eS' eM eW0 h0 by linarith
qed

lemma last_bound_arith:
  fixes \<epsilon> \<eta> :: rat
  assumes e0: "0 \<le> \<epsilon>" and e1: "\<epsilon> \<le> 1 / 16" and h0: "0 \<le> \<eta>" and N: "1 \<le> N"
    and W0: "0 \<le> W" and WM: "W \<le> 2 * M"
    and D: "\<bar>D - W\<bar> \<le> \<epsilon> * W + \<eta>"
    and S: "\<bar>S - D\<bar> \<le> \<epsilon> * D + N * \<eta>"
    and T: "\<bar>t - S\<bar> \<le> \<epsilon> * S + \<eta>"
    and L: "\<bar>l - (M - W + t)\<bar> \<le> \<epsilon> * \<bar>M - W + t\<bar> + \<eta>"
  shows "\<bar>l - M\<bar> \<le> 8 * (\<epsilon> * M) + 4 * \<eta> + 4 * (N * \<eta>)"
proof -
  have small: "\<epsilon> * z \<le> (1 / 16) * z" if "0 \<le> z" for z
    by (rule mult_right_mono [OF e1 that])
  have eW0: "0 \<le> \<epsilon> * W" using e0 W0 by simp
  have Nh: "0 \<le> N * \<eta>" using N h0 by simp
  note eD' = spread_arith(1) [OF e0 e1 h0 N W0 WM D S]
  note eS' = spread_arith(2) [OF e0 e1 h0 N W0 WM D S]
  have eM: "\<epsilon> * W \<le> 2 * (\<epsilon> * M)"
    using mult_left_mono [OF WM e0] by (simp add: algebra_simps)
  have eNh: "\<epsilon> * (N * \<eta>) \<le> (1 / 16) * (N * \<eta>)" using Nh by (rule small)
  have tW: "\<bar>t - W\<bar> \<le> \<epsilon> * S + \<eta> + (\<epsilon> * D + N * \<eta>) + (\<epsilon> * W + \<eta>)"
    using D S T by linarith
  have tW': "\<bar>t - W\<bar> \<le> (32 / 10) * (\<epsilon> * W) + (22 / 10) * \<eta> + (11 / 10) * (N * \<eta>)"
    using tW eS' eD' eNh eW0 h0 Nh by linarith
  have tW0: "0 \<le> \<bar>t - W\<bar>" by simp
  have M0: "0 \<le> M" using W0 WM by linarith
  have "\<bar>M - W + t\<bar> \<le> M + \<bar>t - W\<bar>" using M0 by linarith
  then have "\<epsilon> * \<bar>M - W + t\<bar> \<le> \<epsilon> * (M + \<bar>t - W\<bar>)" by (rule mult_left_mono [OF _ e0])
  also have "\<dots> = \<epsilon> * M + \<epsilon> * \<bar>t - W\<bar>" by (simp add: algebra_simps)
  also have "\<dots> \<le> \<epsilon> * M + (1 / 16) * \<bar>t - W\<bar>" using small [OF tW0] by simp
  finally have eT: "\<epsilon> * \<bar>M - W + t\<bar> \<le> \<epsilon> * M + (1 / 16) * \<bar>t - W\<bar>" .
  have "\<bar>l - M\<bar> \<le> \<bar>l - (M - W + t)\<bar> + \<bar>t - W\<bar>" by linarith
  then have "\<bar>l - M\<bar> \<le> \<epsilon> * M + (17 / 16) * \<bar>t - W\<bar> + \<eta>" using L eT by (rule lin_sum3)
  then show "\<bar>l - M\<bar> \<le> 8 * (\<epsilon> * M) + 4 * \<eta> + 4 * (N * \<eta>)"
    using tW' eM eW0 h0 Nh by (rule lin_final)
qed

lemma strict_arith:
  fixes \<epsilon> \<eta> :: rat
  assumes e0: "0 \<le> \<epsilon>" and h0: "0 < \<eta>"
    and eS: "\<epsilon> * S \<le> 4 * (\<epsilon> * M) + (1 / 2) * \<eta>" and S8: "\<epsilon> * S \<le> (1 / 8) * s"
    and M0: "0 \<le> M" and e1: "\<epsilon> \<le> 1 / 16"
    and s: "16 * (\<epsilon> * M) + 8 * \<eta> \<le> s"
    and xy: "x + s \<le> y" and x0: "0 \<le> x" and yS: "y \<le> S"
    and tx: "\<bar>tx - x\<bar> \<le> \<epsilon> * x + \<eta>" and ty: "\<bar>ty - y\<bar> \<le> \<epsilon> * y + \<eta>"
    and m: "\<bar>m\<bar> \<le> M"
    and gx: "\<bar>gx - (m + tx)\<bar> \<le> \<epsilon> * \<bar>m + tx\<bar> + \<eta>"
    and gy: "\<bar>gy - (m + ty)\<bar> \<le> \<epsilon> * \<bar>m + ty\<bar> + \<eta>"
  shows "gx < gy"
proof -
  have small: "\<epsilon> * z \<le> (1 / 16) * z" if "0 \<le> z" for z
    by (rule mult_right_mono [OF e1 that])
  have eM0: "0 \<le> \<epsilon> * M" using e0 M0 by simp
  have s0: "0 \<le> s" using s eM0 h0 by linarith
  have y0: "0 \<le> y" using xy x0 s0 by linarith
  have S0: "0 \<le> S" using y0 yS by linarith
  have xS: "x \<le> S" using xy yS s0 by linarith
  have ex: "\<epsilon> * x \<le> \<epsilon> * S" by (rule mult_left_mono [OF xS e0])
  have ey: "\<epsilon> * y \<le> \<epsilon> * S" by (rule mult_left_mono [OF yS e0])
  have eS0: "0 \<le> \<epsilon> * S" using e0 S0 by simp
  have eSS: "\<epsilon> * (\<epsilon> * S) \<le> (1 / 16) * (\<epsilon> * S)" using eS0 by (rule small)
  have eh: "\<epsilon> * \<eta> \<le> (1 / 16) * \<eta>" using h0 by (intro small) simp
  define C where "C = \<epsilon> * M + \<epsilon> * S + \<epsilon> * (\<epsilon> * S) + \<epsilon> * \<eta>"
  have bx: "\<bar>m + tx\<bar> \<le> M + S + \<epsilon> * S + \<eta>" using m tx ex xS x0 by linarith
  have "\<epsilon> * \<bar>m + tx\<bar> \<le> \<epsilon> * (M + S + \<epsilon> * S + \<eta>)" by (rule mult_left_mono [OF bx e0])
  also have "\<dots> = C" by (simp add: C_def algebra_simps)
  finally have ebx: "\<epsilon> * \<bar>m + tx\<bar> \<le> C" .
  have by': "\<bar>m + ty\<bar> \<le> M + S + \<epsilon> * S + \<eta>" using m ty ey yS y0 by linarith
  have "\<epsilon> * \<bar>m + ty\<bar> \<le> \<epsilon> * (M + S + \<epsilon> * S + \<eta>)" by (rule mult_left_mono [OF by' e0])
  also have "\<dots> = C" by (simp add: C_def algebra_simps)
  finally have eby: "\<epsilon> * \<bar>m + ty\<bar> \<le> C" .
  have d: "s - 2 * (\<epsilon> * S) - 2 * \<eta> \<le> ty - tx" using tx ty ex ey xy by linarith
  have gx': "\<bar>gx - (m + tx)\<bar> \<le> C + \<eta>"
    by (rule order_trans [OF gx add_right_mono [OF ebx]])
  have gy': "\<bar>gy - (m + ty)\<bar> \<le> C + \<eta>"
    by (rule order_trans [OF gy add_right_mono [OF eby]])
  have g: "(ty - tx) - 2 * C - 2 * \<eta> \<le> gy - gx"
    by (rule lin_diff [OF gx' gy'])
  have C': "C \<le> \<epsilon> * M + (17 / 16) * (\<epsilon> * S) + (1 / 16) * \<eta>"
    unfolding C_def using eSS eh by linarith
  have "0 < s - (33 / 8) * (\<epsilon> * S) - 2 * (\<epsilon> * M) - (33 / 8) * \<eta>"
    using S8 eS s h0 eM0 eS0 by linarith
  then show ?thesis using g d C' by linarith
qed

section \<open>Order and end point of the price grid\<close>

lemma fl_err:
  assumes "fl x = Fin y"
  shows "\<bar>y - x\<bar> \<le> 1 / 2 ^ 53 * \<bar>x\<bar> + 1 / 2 ^ 1075"
  using fl_error [OF assms] by simp

lemma fmul_eq_Fin: "fmul a b = Fin z \<Longrightarrow> \<exists>x y. a = Fin x \<and> b = Fin y \<and> fl (x * y) = Fin z"
  by (cases a; cases b) (simp_all split: if_splits)

lemma fadd_eq_Fin: "fadd a b = Fin z \<Longrightarrow> \<exists>x y. a = Fin x \<and> b = Fin y \<and> fl (x + y) = Fin z"
  by (cases a; cases b) simp_all

lemma fsub_eq_Fin: "fsub a b = Fin z \<Longrightarrow> \<exists>x y. a = Fin x \<and> b = Fin y \<and> fl (x - y) = Fin z"
  unfolding fsub_def by (cases a; cases b) simp_all

lemma fdiv_eq_Fin: "fdiv a (Fin y) = Fin z \<Longrightarrow> y \<noteq> 0 \<Longrightarrow> \<exists>x. a = Fin x \<and> fl (x / y) = Fin z"
  by (cases a) (simp_all split: if_splits)

lemma fle_fl_PInf [simp]: "fle (fl z) PInf"
  by (simp add: fl_rnd fle_def)

lemma fle_NInf_fl [simp]: "fle NInf (fl z)"
  by (simp add: fl_rnd fle_def)

lemma fle_Fin [simp]: "fle (Fin x) (Fin y) \<longleftrightarrow> x \<le> y"
  by (auto simp: fle_def)

lemma fadd_mono_right:
  assumes "fle a b"
  shows "fle (fadd (Fin m) a) (fadd (Fin m) b)"
proof (cases a)
  case a: (Fin x)
  show ?thesis
  proof (cases b)
    case (Fin y)
    with a assms have "m + x \<le> m + y" by simp
    then have "fle (fl (m + x)) (fl (m + y))" by (rule fl_mono)
    with a Fin show ?thesis by simp
  next
    case PInf with a show ?thesis by simp
  next
    case NInf with a assms show ?thesis by (simp add: fle_def)
  next
    case NaN with a assms show ?thesis by (simp add: fle_def)
  qed
next
  case PInf
  with assms show ?thesis by (cases b) (simp_all add: fle_def)
next
  case a: NInf
  show ?thesis
  proof (cases b)
    case (Fin y) with a show ?thesis by simp
  next
    case PInf with a show ?thesis by (simp add: fle_def)
  next
    case NInf with a show ?thesis by (simp add: fle_def)
  next
    case NaN with a assms show ?thesis by (simp add: fle_def)
  qed
next
  case NaN
  with assms show ?thesis by (simp add: fle_def)
qed

lemma step_finiteE:
  assumes s: "step (Fin u) (Fin \<rho>) n = Fin s" and n: "n \<noteq> 1"
  obtains q a b mn mx D where
    "fl (\<rho> / 100) = Fin q" "fl (1 - q) = Fin a" "fl (1 + q) = Fin b"
    "fl (u * a) = Fin mn" "fl (u * b) = Fin mx"
    "minPrice (Fin u) (Fin \<rho>) = Fin mn" "maxPrice (Fin u) (Fin \<rho>) = Fin mx"
    "fl (mx - mn) = Fin D" "fl (D / of_int (n - 1)) = Fin s"
proof -
  have n0: "(of_int (n - 1) :: rat) \<noteq> 0" using n by simp
  from s have "fdiv (fsub (maxPrice (Fin u) (Fin \<rho>)) (minPrice (Fin u) (Fin \<rho>))) (Fin (of_int (n - 1))) = Fin s"
    by (simp only: step_def)
  from fdiv_eq_Fin [OF this n0] obtain D where
    d: "fsub (maxPrice (Fin u) (Fin \<rho>)) (minPrice (Fin u) (Fin \<rho>)) = Fin D"
    and sD: "fl (D / of_int (n - 1)) = Fin s" by blast
  from fsub_eq_Fin [OF d] obtain mx mn where
    mx: "maxPrice (Fin u) (Fin \<rho>) = Fin mx" and mn: "minPrice (Fin u) (Fin \<rho>) = Fin mn"
    and D: "fl (mx - mn) = Fin D" by blast
  from mx have "fmul (Fin u) (fadd (Fin 1) (fdiv (Fin \<rho>) (Fin 100))) = Fin mx"
    by (simp only: maxPrice_def)
  from fmul_eq_Fin [OF this] obtain b where
    b: "fadd (Fin 1) (fdiv (Fin \<rho>) (Fin 100)) = Fin b" and ub: "fl (u * b) = Fin mx" by auto
  from fadd_eq_Fin [OF b] obtain q where
    q: "fdiv (Fin \<rho>) (Fin 100) = Fin q" and qb: "fl (1 + q) = Fin b" by auto
  from q have q': "fl (\<rho> / 100) = Fin q" by simp
  from mn have "fmul (Fin u) (fsub (Fin 1) (Fin q)) = Fin mn"
    by (simp only: minPrice_def q)
  from fmul_eq_Fin [OF this] obtain a where
    a: "fsub (Fin 1) (Fin q) = Fin a" and ua: "fl (u * a) = Fin mn" by auto
  from a have qa: "fl (1 - q) = Fin a" by (simp add: fsub_def)
  from q' qa qb ua ub mn mx D sD show ?thesis by (rule that)
qed

lemma grid_order:
  assumes u: "0 \<le> u" and r: "0 \<le> \<rho>" and n: "2 \<le> n"
    and q: "fl (\<rho> / 100) = Fin q" and a: "fl (1 - q) = Fin a" and b: "fl (1 + q) = Fin b"
    and mn: "fl (u * a) = Fin mn" and mx: "fl (u * b) = Fin mx"
    and D: "fl (mx - mn) = Fin D" and s: "fl (D / of_int (n - 1)) = Fin s"
  shows "\<bar>mn\<bar> \<le> mx" "0 \<le> D" "0 \<le> s"
proof -
  have z: "fl 0 = Fin 0" by simp
  have q0: "0 \<le> q" using r by (intro fl_mono_Fin [OF z q]) simp
  have ab: "a \<le> b" using q0 by (intro fl_mono_Fin [OF a b]) simp
  have nb: "fl (- (1 + q)) = Fin (- b)" unfolding fl_minus b by simp
  have "- (1 + q) \<le> 1 - q" using q0 by simp
  then have ba: "- b \<le> a" by (rule fl_mono_Fin [OF nb a])
  have 1: "mn \<le> mx" by (rule fl_mono_Fin [OF mn mx]) (rule mult_left_mono [OF ab u])
  have nmx: "fl (- (u * b)) = Fin (- mx)" unfolding fl_minus mx by simp
  have "- (u * b) \<le> u * a" using mult_left_mono [OF ba u] by simp
  then have 2: "- mx \<le> mn" by (rule fl_mono_Fin [OF nmx mn])
  from 1 2 show "\<bar>mn\<bar> \<le> mx" by simp
  show D0: "0 \<le> D" using 1 by (intro fl_mono_Fin [OF z D]) simp
  show "0 \<le> s" using D0 n by (intro fl_mono_Fin [OF z s]) simp
qed

lemma grid_nondecreasing:
  assumes "0 \<le> s" and "i \<le> j"
  shows "fle (fadd (Fin mn) (fmul (Fin s) (Fin (of_nat i)))) (fadd (Fin mn) (fmul (Fin s) (Fin (of_nat j))))"
proof -
  have "s * of_nat i \<le> s * of_nat j" using assms by (intro mult_left_mono) simp_all
  then have "fle (fl (s * of_nat i)) (fl (s * of_nat j))" by (rule fl_mono)
  then show ?thesis by (simp add: fadd_mono_right)
qed

lemma fle_Fin_between: "fle (Fin a) x \<Longrightarrow> fle x (Fin b) \<Longrightarrow> \<exists>y. x = Fin y"
  by (cases x) (simp_all add: fle_def)

lemma four_eta: "4 * (1 / 2 ^ 1075) = (1::rat) / 2 ^ 1073"
proof -
  define P :: rat where "P = 2 ^ 1073"
  have p2: "(2::rat) ^ 2 = 4" by simp
  have "(1075::nat) = 1073 + 2" by simp
  then have "(2::rat) ^ 1075 = 2 ^ (1073 + 2)" by (rule arg_cong [where f = "\<lambda>k. (2::rat) ^ k"])
  also have "\<dots> = 2 ^ 1073 * 2 ^ 2" by (rule power_add)
  also have "\<dots> = P * 4" unfolding P_def p2 ..
  finally have e: "(2::rat) ^ 1075 = P * 4" .
  have "4 * (1 / (P * 4)) = 1 / P" by simp
  then have "4 * (1 / 2 ^ 1075) = 1 / P" unfolding e [symmetric] .
  then show ?thesis unfolding P_def .
qed

lemma grid_last_bound:
  assumes u: "0 \<le> u" and r: "0 \<le> \<rho>" and n: "2 \<le> n"
    and q: "fl (\<rho> / 100) = Fin q" and a: "fl (1 - q) = Fin a" and b: "fl (1 + q) = Fin b"
    and mn: "fl (u * a) = Fin mn" and mx: "fl (u * b) = Fin mx"
    and D: "fl (mx - mn) = Fin D" and s: "fl (D / of_int (n - 1)) = Fin s"
    and l: "fadd (Fin mn) (fmul (Fin s) (Fin (of_int (n - 1)))) = Fin l"
  shows "\<bar>l - mx\<bar> \<le> mx / 2 ^ 50 + of_int n / 2 ^ 1073"
proof -
  define \<epsilon> :: rat where "\<epsilon> = 1 / 2 ^ 53"
  define \<eta> :: rat where "\<eta> = 1 / 2 ^ 1075"
  define N :: rat where "N = of_int (n - 1)"
  have e0: "0 \<le> \<epsilon>" and e1: "\<epsilon> \<le> 1 / 16" by (simp_all add: \<epsilon>_def)
  have h0: "0 \<le> \<eta>" unfolding \<eta>_def by (rule divide_nonneg_pos, simp, rule zero_less_power, simp)
  have N1: "1 \<le> N" and N0: "0 < N" using n by (simp_all add: N_def)
  note ord = grid_order [OF u r n q a b mn mx D s]
  from fadd_eq_Fin [OF l] obtain t where
    t: "fl (s * N) = Fin t" and lt: "fl (mn + t) = Fin l"
    by (auto simp: N_def dest!: fmul_eq_Fin)
  have W0: "0 \<le> mx - mn" and WM: "mx - mn \<le> 2 * mx" using ord(1) by linarith+
  have S0: "0 \<le> s * N" using ord(3) N0 by simp
  have "\<bar>D - (mx - mn)\<bar> \<le> \<epsilon> * \<bar>mx - mn\<bar> + \<eta>"
    unfolding \<epsilon>_def \<eta>_def by (rule fl_err [OF D])
  then have Dh: "\<bar>D - (mx - mn)\<bar> \<le> \<epsilon> * (mx - mn) + \<eta>"
    using W0 by simp
  have "\<bar>s - D / N\<bar> \<le> \<epsilon> * \<bar>D / N\<bar> + \<eta>"
    unfolding \<epsilon>_def \<eta>_def N_def by (rule fl_err [OF s])
  then have "\<bar>s - D / N\<bar> * N \<le> (\<epsilon> * \<bar>D / N\<bar> + \<eta>) * N"
    using N0 by (intro mult_right_mono) simp_all
  moreover have "\<bar>s - D / N\<bar> * N = \<bar>s * N - D\<bar>"
  proof -
    have "\<bar>s - D / N\<bar> * N = \<bar>(s - D / N) * N\<bar>" using N0 by (simp add: abs_mult)
    also have "(s - D / N) * N = s * N - D" using N0 by (simp add: algebra_simps)
    finally show ?thesis .
  qed
  moreover have "(\<epsilon> * \<bar>D / N\<bar> + \<eta>) * N = \<epsilon> * D + N * \<eta>"
    using N0 ord(2) by (simp add: algebra_simps)
  ultimately have Sh: "\<bar>s * N - D\<bar> \<le> \<epsilon> * D + N * \<eta>" by simp
  have "\<bar>t - s * N\<bar> \<le> \<epsilon> * \<bar>s * N\<bar> + \<eta>"
    unfolding \<epsilon>_def \<eta>_def by (rule fl_err [OF t])
  then have Th: "\<bar>t - s * N\<bar> \<le> \<epsilon> * (s * N) + \<eta>"
    using S0 by (simp only: abs_of_nonneg)
  have eq: "mx - (mx - mn) + t = mn + t" by simp
  have Lh: "\<bar>l - (mx - (mx - mn) + t)\<bar> \<le> \<epsilon> * \<bar>mx - (mx - mn) + t\<bar> + \<eta>"
    unfolding eq \<epsilon>_def \<eta>_def by (rule fl_err [OF lt])
  have "\<bar>l - mx\<bar> \<le> 8 * (\<epsilon> * mx) + 4 * \<eta> + 4 * (N * \<eta>)"
    by (rule last_bound_arith [OF e0 e1 h0 N1 W0 WM Dh Sh Th Lh])
  then have b: "\<bar>l - mx\<bar> \<le> 8 * (\<epsilon> * mx) + (4 * \<eta> + 4 * (N * \<eta>))"
    by (simp only: add.assoc)
  have c1: "8 * (\<epsilon> * mx) = mx / 2 ^ 50" by (simp add: \<epsilon>_def)
  have c2: "4 * \<eta> + 4 * (N * \<eta>) = of_int n * (4 * \<eta>)" by (simp add: N_def algebra_simps)
  have c3: "4 * \<eta> = 1 / 2 ^ 1073" unfolding \<eta>_def by (rule four_eta)
  from b have "\<bar>l - mx\<bar> \<le> mx / 2 ^ 50 + of_int n * (4 * \<eta>)" unfolding c1 c2 .
  then have "\<bar>l - mx\<bar> \<le> mx / 2 ^ 50 + of_int n * (1 / 2 ^ 1073)" unfolding c3 .
  then show ?thesis by (simp only: times_divide_eq_right mult_1_right)
qed

lemma eight_eta: "8 * (1 / 2 ^ 1075) = (1::rat) / 2 ^ 1072"
proof -
  define P :: rat where "P = 2 ^ 1072"
  have p3: "(2::rat) ^ 3 = 8" by simp
  have "(1075::nat) = 1072 + 3" by simp
  then have "(2::rat) ^ 1075 = 2 ^ (1072 + 3)" by (rule arg_cong [where f = "\<lambda>k. (2::rat) ^ k"])
  also have "\<dots> = 2 ^ 1072 * 2 ^ 3" by (rule power_add)
  also have "\<dots> = P * 8" unfolding P_def p3 ..
  finally have e: "(2::rat) ^ 1075 = P * 8" .
  have "8 * (1 / (P * 8)) = 1 / P" by simp
  then have "8 * (1 / 2 ^ 1075) = 1 / P" unfolding e [symmetric] .
  then show ?thesis unfolding P_def .
qed

lemma grid_spread:
  assumes u: "0 \<le> u" and r: "0 \<le> \<rho>" and n: "2 \<le> n"
    and q: "fl (\<rho> / 100) = Fin q" and a: "fl (1 - q) = Fin a" and b: "fl (1 + q) = Fin b"
    and mn: "fl (u * a) = Fin mn" and mx: "fl (u * b) = Fin mx"
    and D: "fl (mx - mn) = Fin D" and s: "fl (D / of_int (n - 1)) = Fin s"
  shows "\<bar>D - (mx - mn)\<bar> \<le> 1 / 2 ^ 53 * (mx - mn) + 1 / 2 ^ 1075"
    and "\<bar>s * of_int (n - 1) - D\<bar> \<le> 1 / 2 ^ 53 * D + of_int (n - 1) * (1 / 2 ^ 1075)"
proof -
  define \<epsilon> :: rat where "\<epsilon> = 1 / 2 ^ 53"
  define \<eta> :: rat where "\<eta> = 1 / 2 ^ 1075"
  define N :: rat where "N = of_int (n - 1)"
  have N0: "0 < N" using n by (simp add: N_def)
  note ord = grid_order [OF u r n q a b mn mx D s]
  have W0: "0 \<le> mx - mn" using ord(1) by linarith
  have "\<bar>D - (mx - mn)\<bar> \<le> \<epsilon> * \<bar>mx - mn\<bar> + \<eta>"
    unfolding \<epsilon>_def \<eta>_def by (rule fl_err [OF D])
  then have Dh: "\<bar>D - (mx - mn)\<bar> \<le> \<epsilon> * (mx - mn) + \<eta>"
    using W0 by simp
  have "\<bar>s - D / N\<bar> \<le> \<epsilon> * \<bar>D / N\<bar> + \<eta>"
    unfolding \<epsilon>_def \<eta>_def N_def by (rule fl_err [OF s])
  then have "\<bar>s - D / N\<bar> * N \<le> (\<epsilon> * \<bar>D / N\<bar> + \<eta>) * N"
    using N0 by (intro mult_right_mono) simp_all
  moreover have "\<bar>s - D / N\<bar> * N = \<bar>s * N - D\<bar>"
  proof -
    have "\<bar>s - D / N\<bar> * N = \<bar>(s - D / N) * N\<bar>" using N0 by (simp add: abs_mult)
    also have "(s - D / N) * N = s * N - D" using N0 by (simp add: algebra_simps)
    finally show ?thesis .
  qed
  moreover have "(\<epsilon> * \<bar>D / N\<bar> + \<eta>) * N = \<epsilon> * D + N * \<eta>"
    using N0 ord(2) by (simp add: algebra_simps)
  ultimately have Sh: "\<bar>s * N - D\<bar> \<le> \<epsilon> * D + N * \<eta>" by simp
  show "\<bar>D - (mx - mn)\<bar> \<le> 1 / 2 ^ 53 * (mx - mn) + 1 / 2 ^ 1075"
    using Dh unfolding \<epsilon>_def \<eta>_def .
  show "\<bar>s * of_int (n - 1) - D\<bar> \<le> 1 / 2 ^ 53 * D + of_int (n - 1) * (1 / 2 ^ 1075)"
    using Sh unfolding \<epsilon>_def \<eta>_def N_def .
qed

lemma grid_strict:
  assumes u: "0 \<le> u" and r: "0 \<le> \<rho>" and n: "2 \<le> n" and n50: "n \<le> 2 ^ 50"
    and q: "fl (\<rho> / 100) = Fin q" and a: "fl (1 - q) = Fin a" and b: "fl (1 + q) = Fin b"
    and mn: "fl (u * a) = Fin mn" and mx: "fl (u * b) = Fin mx"
    and D: "fl (mx - mn) = Fin D" and s: "fl (D / of_int (n - 1)) = Fin s"
    and cond: "mx / 2 ^ 49 + 1 / 2 ^ 1072 \<le> s"
    and ij: "i < j" and jn: "int j \<le> n - 1"
    and gi: "fadd (Fin mn) (fmul (Fin s) (Fin (of_nat i))) = Fin gi"
    and gj: "fadd (Fin mn) (fmul (Fin s) (Fin (of_nat j))) = Fin gj"
  shows "gi < gj"
proof -
  define \<epsilon> :: rat where "\<epsilon> = 1 / 2 ^ 53"
  define \<eta> :: rat where "\<eta> = 1 / 2 ^ 1075"
  define N :: rat where "N = of_int (n - 1)"
  have e0: "0 \<le> \<epsilon>" and e1: "\<epsilon> \<le> 1 / 16" by (simp_all add: \<epsilon>_def)
  have h0: "0 < \<eta>" unfolding \<eta>_def by (rule divide_pos_pos, simp, rule zero_less_power, simp)
  have h0': "0 \<le> \<eta>" using h0 by simp
  have N1: "1 \<le> N" and N0: "0 < N" using n by (simp_all add: N_def)
  note ord = grid_order [OF u r n q a b mn mx D s]
  have M0: "0 \<le> mx" using ord(1) by linarith
  have W0: "0 \<le> mx - mn" and WM: "mx - mn \<le> 2 * mx" using ord(1) by linarith+
  have Dh: "\<bar>D - (mx - mn)\<bar> \<le> \<epsilon> * (mx - mn) + \<eta>"
    unfolding \<epsilon>_def \<eta>_def by (rule grid_spread(1) [OF u r n q a b mn mx D s])
  have Sh: "\<bar>s * N - D\<bar> \<le> \<epsilon> * D + N * \<eta>"
    unfolding \<epsilon>_def \<eta>_def N_def by (rule grid_spread(2) [OF u r n q a b mn mx D s])
  have eS3: "\<epsilon> * (s * N) \<le> 3 * (\<epsilon> * mx) + (1 / 8) * \<eta> + \<epsilon> * (N * \<eta>)"
    by (rule spread_arith(3) [OF e0 e1 h0' N1 W0 WM Dh Sh])
  have "n - 1 \<le> 2 ^ 50" using n50 by simp
  then have "(of_int (n - 1) :: rat) \<le> of_int (2 ^ 50)" by (simp only: of_int_le_iff)
  then have "N \<le> 2 ^ 50" by (simp add: N_def)
  then have "\<epsilon> * N \<le> \<epsilon> * 2 ^ 50" by (rule mult_left_mono [OF _ e0])
  also have "\<epsilon> * 2 ^ 50 = 1 / 8" by (simp add: \<epsilon>_def)
  finally have eN: "\<epsilon> * N \<le> 1 / 8" .
  have "\<epsilon> * N * \<eta> \<le> 1 / 8 * \<eta>" by (rule mult_right_mono [OF eN h0'])
  then have eNh: "\<epsilon> * (N * \<eta>) \<le> (1 / 8) * \<eta>" by (simp only: mult.assoc)
  have eM0: "0 \<le> \<epsilon> * mx" using e0 M0 by simp
  have eS: "\<epsilon> * (s * N) \<le> 4 * (\<epsilon> * mx) + (1 / 2) * \<eta>"
    using eS3 eNh eM0 h0' by linarith
  have "\<epsilon> * N * s \<le> 1 / 8 * s" by (rule mult_right_mono [OF eN ord(3)])
  moreover have "\<epsilon> * N * s = \<epsilon> * (s * N)" by (simp add: mult_ac)
  ultimately have S8: "\<epsilon> * (s * N) \<le> (1 / 8) * s" by simp
  have c16: "16 * (\<epsilon> * mx) = mx / 2 ^ 49" by (simp add: \<epsilon>_def)
  have c8: "8 * \<eta> = 1 / 2 ^ 1072" unfolding \<eta>_def by (rule eight_eta)
  have sc: "16 * (\<epsilon> * mx) + 8 * \<eta> \<le> s" unfolding c16 c8 by (rule cond)
  have "Suc i \<le> j" using ij by simp
  then have "(of_nat (Suc i) :: rat) \<le> of_nat j" by (simp only: of_nat_le_iff)
  then have "(of_nat i :: rat) + 1 \<le> of_nat j" by simp
  then have "s * (of_nat i + 1) \<le> s * of_nat j" by (rule mult_left_mono [OF _ ord(3)])
  then have xy: "s * of_nat i + s \<le> s * of_nat j" by (simp add: algebra_simps)
  have x0: "0 \<le> s * of_nat i" using ord(3) by simp
  have y0: "0 \<le> s * of_nat j" using ord(3) by simp
  have "(of_int (int j) :: rat) \<le> of_int (n - 1)" using jn by (simp only: of_int_le_iff)
  then have "(of_nat j :: rat) \<le> N" by (simp add: N_def)
  then have yS: "s * of_nat j \<le> s * N" by (rule mult_left_mono [OF _ ord(3)])
  from fadd_eq_Fin [OF gi] obtain ti where
    ti: "fl (s * of_nat i) = Fin ti" and gi': "fl (mn + ti) = Fin gi"
    by (auto dest!: fmul_eq_Fin)
  from fadd_eq_Fin [OF gj] obtain tj where
    tj: "fl (s * of_nat j) = Fin tj" and gj': "fl (mn + tj) = Fin gj"
    by (auto dest!: fmul_eq_Fin)
  have "\<bar>ti - s * of_nat i\<bar> \<le> \<epsilon> * \<bar>s * of_nat i\<bar> + \<eta>"
    unfolding \<epsilon>_def \<eta>_def by (rule fl_err [OF ti])
  then have tx: "\<bar>ti - s * of_nat i\<bar> \<le> \<epsilon> * (s * of_nat i) + \<eta>"
    using x0 by (simp only: abs_of_nonneg)
  have "\<bar>tj - s * of_nat j\<bar> \<le> \<epsilon> * \<bar>s * of_nat j\<bar> + \<eta>"
    unfolding \<epsilon>_def \<eta>_def by (rule fl_err [OF tj])
  then have ty: "\<bar>tj - s * of_nat j\<bar> \<le> \<epsilon> * (s * of_nat j) + \<eta>"
    using y0 by (simp only: abs_of_nonneg)
  have gx: "\<bar>gi - (mn + ti)\<bar> \<le> \<epsilon> * \<bar>mn + ti\<bar> + \<eta>"
    unfolding \<epsilon>_def \<eta>_def by (rule fl_err [OF gi'])
  have gy: "\<bar>gj - (mn + tj)\<bar> \<le> \<epsilon> * \<bar>mn + tj\<bar> + \<eta>"
    unfolding \<epsilon>_def \<eta>_def by (rule fl_err [OF gj'])
  show ?thesis
    by (rule strict_arith [OF e0 h0 eS S8 M0 e1 sc xy x0 yS tx ty ord(1) gx gy])
qed

lemma fl_pow2:
  assumes "k \<le> 1023"
  shows "fl (2 ^ k) = Fin (2 ^ k)"
proof (rule fl_exact [where m = 1 and e = "int k"])
  show "(2::rat) ^ k = of_int 1 * 2 powi int k" by simp
  show "\<bar>1::int\<bar> \<le> 2 ^ 53" by simp
  show "- 1074 \<le> int k" by simp
  have "(2::rat) ^ k < 2 ^ 1024" using assms by (intro power_strict_increasing) simp_all
  then show "\<bar>(2::rat) ^ k\<bar> < overflow_threshold" by (simp add: overflow_threshold_def)
qed

lemma fl_bounded:
  assumes x: "\<bar>x\<bar> \<le> 2 ^ k" and k: "k \<le> 1023"
  obtains y where "fl x = Fin y" and "\<bar>y\<bar> \<le> 2 ^ k"
proof -
  have p: "fl (2 ^ k) = Fin (2 ^ k)" by (rule fl_pow2 [OF k])
  have n: "fl (- (2 ^ k)) = Fin (- (2 ^ k))" unfolding fl_minus p by simp
  have "x \<le> 2 ^ k" and "- (2 ^ k) \<le> x" using x by linarith+
  then have hi: "fle (fl x) (Fin (2 ^ k))" and lo: "fle (Fin (- (2 ^ k))) (fl x)"
    using fl_mono [of x "2 ^ k"] fl_mono [of "- (2 ^ k)" x] by (simp_all only: p n)
  from fle_Fin_between [OF lo hi] obtain y where y: "fl x = Fin y" ..
  with hi lo have "y \<le> 2 ^ k" and "- (2 ^ k) \<le> y" by (simp_all add: fle_Fin)
  then have "\<bar>y\<bar> \<le> 2 ^ k" by linarith
  with y show ?thesis by (rule that)
qed

lemma grid_finite:
  assumes u: "0 < u" "u \<le> 2 ^ 1000" and r: "0 < \<rho>" "\<rho> \<le> 1000"
    and n: "2 \<le> n" "n \<le> 2 ^ 53"
  shows "\<exists>s l. step (Fin u) (Fin \<rho>) n = Fin s \<and>
    fadd (minPrice (Fin u) (Fin \<rho>)) (fmul (Fin s) (Fin (of_int (n - 1)))) = Fin l"
proof -
  have u0: "0 \<le> u" and r0: "0 \<le> \<rho>" using u r by simp_all
  have "\<bar>\<rho> / 100\<bar> \<le> 2 ^ 4" using r by simp
  then obtain q where q: "fl (\<rho> / 100) = Fin q" and qb: "\<bar>q\<bar> \<le> 2 ^ 4"
    by (rule fl_bounded) simp
  have "\<bar>1 - q\<bar> \<le> 2 ^ 5" using qb by simp
  then obtain a where a: "fl (1 - q) = Fin a" and ab: "\<bar>a\<bar> \<le> 2 ^ 5"
    by (rule fl_bounded) simp
  have "\<bar>1 + q\<bar> \<le> 2 ^ 5" using qb by simp
  then obtain b where b: "fl (1 + q) = Fin b" and bb: "\<bar>b\<bar> \<le> 2 ^ 5"
    by (rule fl_bounded) simp
  have ua: "\<bar>u * a\<bar> \<le> 2 ^ 1005"
  proof -
    have "\<bar>u * a\<bar> = u * \<bar>a\<bar>" using u0 by (simp add: abs_mult)
    also have "\<dots> \<le> 2 ^ 1000 * 2 ^ 5" using u ab u0 by (intro mult_mono) simp_all
    also have "\<dots> = 2 ^ 1005" by simp
    finally show ?thesis .
  qed
  then obtain mn where mn: "fl (u * a) = Fin mn" and mnb: "\<bar>mn\<bar> \<le> 2 ^ 1005"
    by (rule fl_bounded) simp
  have ub: "\<bar>u * b\<bar> \<le> 2 ^ 1005"
  proof -
    have "\<bar>u * b\<bar> = u * \<bar>b\<bar>" using u0 by (simp add: abs_mult)
    also have "\<dots> \<le> 2 ^ 1000 * 2 ^ 5" using u bb u0 by (intro mult_mono) simp_all
    also have "\<dots> = 2 ^ 1005" by simp
    finally show ?thesis .
  qed
  then obtain mx where mx: "fl (u * b) = Fin mx" and mxb: "\<bar>mx\<bar> \<le> 2 ^ 1005"
    by (rule fl_bounded) simp
  have "\<bar>mx - mn\<bar> \<le> 2 ^ 1005 + 2 ^ 1005" using mnb mxb by linarith
  also have "\<dots> = (2::rat) ^ 1006" by simp
  finally have "\<bar>mx - mn\<bar> \<le> 2 ^ 1006" .
  then obtain D where D: "fl (mx - mn) = Fin D" and Db: "\<bar>D\<bar> \<le> 2 ^ 1006"
    by (rule fl_bounded) simp
  define N :: rat where "N = of_int (n - 1)"
  have N1: "1 \<le> N" using n by (simp add: N_def)
  have "\<bar>D / N\<bar> = \<bar>D\<bar> / N" using N1 by simp
  also have "\<dots> \<le> \<bar>D\<bar> / 1" using N1 by (intro divide_left_mono) simp_all
  finally have "\<bar>D / N\<bar> \<le> 2 ^ 1006" using Db by simp
  then obtain s where s: "fl (D / N) = Fin s" and sb: "\<bar>s\<bar> \<le> 2 ^ 1006"
    by (rule fl_bounded) simp
  have s': "fl (D / of_int (n - 1)) = Fin s" using s by (simp only: N_def)
  note ord = grid_order [OF u0 r0 n(1) q a b mn mx D s']
  have minP: "minPrice (Fin u) (Fin \<rho>) = Fin mn"
    by (simp add: minPrice_def fsub_def q a mn)
  have maxP: "maxPrice (Fin u) (Fin \<rho>) = Fin mx"
    by (simp add: maxPrice_def q b mx)
  have n1: "(of_int (n - 1) :: rat) \<noteq> 0" using n by simp
  have "fsub (Fin mx) (Fin mn) = Fin D" by (simp add: fsub_def D)
  then have st: "step (Fin u) (Fin \<rho>) n = Fin s"
    unfolding step_def minP maxP using s' n1 by (simp only: fdiv.simps if_False)
  have sp: "\<bar>s * N - D\<bar> \<le> 1 / 2 ^ 53 * D + N * (1 / 2 ^ 1075)"
    unfolding N_def by (rule grid_spread(2) [OF u0 r0 n(1) q a b mn mx D s'])
  have "n - 1 \<le> 2 ^ 53" using n by simp
  then have "(of_int (n - 1) :: rat) \<le> of_int (2 ^ 53)" by (simp only: of_int_le_iff)
  then have N53: "N \<le> 2 ^ 53" by (simp add: N_def)
  have "N * (1 / 2 ^ 1075) \<le> 2 ^ 53 * (1 / 2 ^ 1075)"
    by (rule mult_right_mono [OF N53]) simp
  also have "\<dots> \<le> (1::rat)" by simp
  finally have Nh: "N * (1 / 2 ^ 1075) \<le> 1" .
  have D0: "0 \<le> D" by (rule ord(2))
  have "1 / 2 ^ 53 * D \<le> 1 * D" by (rule mult_right_mono [OF _ D0]) simp
  then have eD: "1 / 2 ^ 53 * D \<le> D" by simp
  have sN0: "0 \<le> s * N" using ord(3) N1 by simp
  have "D \<le> 2 ^ 1006" using Db by linarith
  then have "\<bar>s * N\<bar> \<le> 2 ^ 1006 + 2 ^ 1006 + 1" using sp eD Nh sN0 D0 by linarith
  also have "\<dots> \<le> (2::rat) ^ 1008" by simp
  finally have "\<bar>s * N\<bar> \<le> 2 ^ 1008" .
  then obtain t where t: "fl (s * N) = Fin t" and tb: "\<bar>t\<bar> \<le> 2 ^ 1008"
    by (rule fl_bounded) simp
  have "\<bar>mn + t\<bar> \<le> 2 ^ 1005 + 2 ^ 1008" using mnb tb by linarith
  also have "\<dots> \<le> (2::rat) ^ 1009" by simp
  finally have "\<bar>mn + t\<bar> \<le> 2 ^ 1009" .
  then obtain l where l: "fl (mn + t) = Fin l" and lb: "\<bar>l\<bar> \<le> 2 ^ 1009"
    by (rule fl_bounded) simp
  have "fadd (minPrice (Fin u) (Fin \<rho>)) (fmul (Fin s) (Fin (of_int (n - 1)))) = Fin l"
    using t l by (simp add: minP N_def)
  with st show ?thesis by blast
qed

lemma last_1_100:
  "map_sum id last (calculate_price_range (Fin 1) (Fin 100) 50)
     = Inr (Fin (9007199254740991 / 4503599627370496))"
proof -
  have "last (map (\<lambda>i. fadd (minPrice (Fin 1) (Fin 100))
            (fmul (step (Fin 1) (Fin 100) 50) (Fin (of_int i)))) [0 .. 49])
      = fadd (minPrice (Fin 1) (Fin 100)) (fmul (step (Fin 1) (Fin 100) 50) (Fin (of_int 49)))"
    by (rule last_map_upto) simp
  also have "\<dots> = Fin (9007199254740991 / 4503599627370496)"
    using fl_step_times_49 fl_idem [OF fl_step_times_49] by (simp add: grid_1_100 mult.commute)
  finally show ?thesis by (simp add: calculate_price_range_50)
qed

lemma tiny_le: "(1::rat) / 2 ^ 1072 \<le> 1 / 2 ^ 49"
proof (rule divide_left_mono)
  show "(2::rat) ^ 49 \<le> 2 ^ 1072" by (rule power_increasing) simp_all
  show "(0::rat) \<le> 1" by simp
  have "(0::rat) < 2 ^ 1072" "(0::rat) < 2 ^ 49" by (rule zero_less_power, simp)+
  then show "(0::rat) < 2 ^ 1072 * 2 ^ 49" by (rule mult_pos_pos)
qed


text \<open>
  \<^bold>\<open>C1\<close>, as the code has it. For \<open>2 \<le> pointCount \<le> 2^53\<close> the grid has exactly
  \<open>pointCount\<close> values, the \<open>i\<close>-th being the float result of
  \<open>minPrice + step * i\<close>, and the first value is \<open>minPrice\<close> whenever \<open>step\<close> is
  finite. For \<open>underlyingPrice > 0\<close> and \<open>rangePercent > 0\<close> with a finite \<open>step\<close>
  the values never decrease: \<^verbatim>\<open>g[i] <= g[j]\<close> for \<open>i \<le> j\<close>. When the last value is
  finite it differs from \<open>maxPrice\<close> by at most
  \<open>maxPrice / 2^50 + pointCount / 2^1073\<close>; when moreover \<open>pointCount \<le> 2^50\<close> and
  \<open>step \<ge> maxPrice / 2^49 + 2^-1072\<close>, the values increase strictly. The step and the
  last value are finite whenever \<open>underlyingPrice \<le> 2^1000\<close> and
  \<open>rangePercent \<le> 1000\<close>.
\<close>

theorem C1_price_range:
  assumes "2 \<le> n" and "n \<le> 2 ^ 53"
  shows "\<exists>g. calculate_price_range U r n = Inr g \<and> int (length g) = n \<and>
    (\<forall>i < length g. g ! i = fadd (minPrice U r) (fmul (step U r n) (Fin (of_nat i)))) \<and>
    ((\<exists>s. step U r n = Fin s) \<longrightarrow> g ! 0 = minPrice U r) \<and>
    (\<forall>u \<rho> s. U = Fin u \<and> r = Fin \<rho> \<and> 0 < u \<and> 0 < \<rho> \<and> step U r n = Fin s \<longrightarrow>
       (\<exists>M. maxPrice U r = Fin M \<and>
          (\<forall>i j. i \<le> j \<and> j < length g \<longrightarrow> fle (g ! i) (g ! j)) \<and>
          (\<forall>l. last g = Fin l \<longrightarrow>
             \<bar>l - M\<bar> \<le> M / 2 ^ 50 + of_int n / 2 ^ 1073 \<and>
             (n \<le> 2 ^ 50 \<and> M / 2 ^ 49 + 1 / 2 ^ 1072 \<le> s \<longrightarrow>
                (\<forall>i j. i < j \<and> j < length g \<longrightarrow> flt (g ! i) (g ! j)))))) \<and>
    (\<forall>u \<rho>. U = Fin u \<and> r = Fin \<rho> \<and> 0 < u \<and> u \<le> 2 ^ 1000 \<and> 0 < \<rho> \<and> \<rho> \<le> 1000 \<longrightarrow>
       (\<exists>s l. step U r n = Fin s \<and> last g = Fin l))"
proof -
  let ?F = "\<lambda>i. fadd (minPrice U r) (fmul (step U r n) (Fin (of_int i)))"
  let ?g = "map ?F [0 .. n - 1]"
  have g: "calculate_price_range U r n = Inr ?g"
    by (rule calculate_price_range_small [OF assms])
  have len: "int (length ?g) = n" using assms by simp
  have nth: "?g ! i = fadd (minPrice U r) (fmul (step U r n) (Fin (of_nat i)))" if "i < length ?g" for i
  proof -
    from that have "int i \<le> n - 1" by simp
    then have "[0 .. n - 1] ! i = int i" by (simp add: nth_upto)
    with that show ?thesis by simp
  qed
  have pos: "0 < length ?g" using assms by simp
  have first: "?g ! 0 = minPrice U r" if "step U r n = Fin s" for s
    using nth [OF pos] that by (simp add: fadd_zero_right)
  have ext: "\<exists>M. maxPrice U r = Fin M \<and>
          (\<forall>i j. i \<le> j \<and> j < length ?g \<longrightarrow> fle (?g ! i) (?g ! j)) \<and>
          (\<forall>l. last ?g = Fin l \<longrightarrow>
             \<bar>l - M\<bar> \<le> M / 2 ^ 50 + of_int n / 2 ^ 1073 \<and>
             (n \<le> 2 ^ 50 \<and> M / 2 ^ 49 + 1 / 2 ^ 1072 \<le> s \<longrightarrow>
                (\<forall>i j. i < j \<and> j < length ?g \<longrightarrow> flt (?g ! i) (?g ! j))))"
    if H: "U = Fin u \<and> r = Fin \<rho> \<and> 0 < u \<and> 0 < \<rho> \<and> step U r n = Fin s" for u \<rho> s
  proof -
    from H have U: "U = Fin u" and r: "r = Fin \<rho>" and u0: "0 \<le> u" and r0: "0 \<le> \<rho>"
      and st: "step (Fin u) (Fin \<rho>) n = Fin s" by auto
    have n1: "n \<noteq> 1" using assms by simp
    from st n1 obtain q a b mn mx D where
      q: "fl (\<rho> / 100) = Fin q" and a: "fl (1 - q) = Fin a" and b: "fl (1 + q) = Fin b"
      and mn: "fl (u * a) = Fin mn" and mx: "fl (u * b) = Fin mx"
      and minP: "minPrice (Fin u) (Fin \<rho>) = Fin mn" and maxP: "maxPrice (Fin u) (Fin \<rho>) = Fin mx"
      and D: "fl (mx - mn) = Fin D" and s: "fl (D / of_int (n - 1)) = Fin s"
      by (rule step_finiteE)
    note ord = grid_order [OF u0 r0 assms(1) q a b mn mx D s]
    have val: "?g ! i = fadd (Fin mn) (fmul (Fin s) (Fin (of_nat i)))" if "i < length ?g" for i
      using nth [OF that] by (simp only: U r minP st)
    have mono: "fle (?g ! i) (?g ! j)" if "i \<le> j" "j < length ?g" for i j
    proof -
      from that have "i < length ?g" by simp
      from val [OF this] val [OF that(2)] grid_nondecreasing [OF ord(3) that(1), of mn]
      show ?thesis by (simp only:)
    qed
    have ne: "?g \<noteq> []" using pos by simp
    have lastn: "last ?g = ?g ! (length ?g - 1)" by (rule last_conv_nth [OF ne])
    have last1: "length ?g - 1 < length ?g" using pos by simp
    have "int (length ?g - 1) = n - 1" using len pos by linarith
    then have "(of_nat (length ?g - 1) :: rat) = of_int (n - 1)"
      by (metis of_int_of_nat_eq)
    with val [OF last1] lastn
    have lastv: "last ?g = fadd (Fin mn) (fmul (Fin s) (Fin (of_int (n - 1))))" by (simp only:)
    have bound: "\<bar>l - mx\<bar> \<le> mx / 2 ^ 50 + of_int n / 2 ^ 1073" if "last ?g = Fin l" for l
      using that unfolding lastv by (rule grid_last_bound [OF u0 r0 assms(1) q a b mn mx D s])
    have strict: "flt (?g ! i) (?g ! j)"
      if l: "last ?g = Fin l" and c: "n \<le> 2 ^ 50" "mx / 2 ^ 49 + 1 / 2 ^ 1072 \<le> s"
        and ij: "i < j" "j < length ?g" for l i j
    proof -
      have f0: "?g ! 0 = Fin mn" using first [of s] st by (simp only: U r minP)
      have fin: "\<exists>y. ?g ! k = Fin y" if k: "k < length ?g" for k
      proof (rule fle_Fin_between)
        show "fle (Fin mn) (?g ! k)" using mono [of 0 k] k f0 by simp
        have "k \<le> length ?g - 1" using k by simp
        from mono [OF this last1] show "fle (?g ! k) (Fin l)" by (simp only: lastn [symmetric] l)
      qed
      from ij have i: "i < length ?g" by simp
      from fin [OF i] obtain gi where gi: "?g ! i = Fin gi" ..
      from fin [OF ij(2)] obtain gj where gj: "?g ! j = Fin gj" ..
      have jn: "int j \<le> n - 1" using ij(2) len by linarith
      have "gi < gj"
        by (rule grid_strict [OF u0 r0 assms(1) c(1) q a b mn mx D s c(2) ij(1) jn
              gi [unfolded val [OF i]] gj [unfolded val [OF ij(2)]]])
      then show ?thesis by (simp only: gi gj flt.simps)
    qed
    have "maxPrice U r = Fin mx" by (simp only: U r maxP)
    with mono bound strict show ?thesis by blast
  qed
  have nthall: "\<forall>i < length ?g. ?g ! i = fadd (minPrice U r) (fmul (step U r n) (Fin (of_nat i)))"
    using nth by blast
  have f: "(\<exists>s. step U r n = Fin s) \<longrightarrow> ?g ! 0 = minPrice U r"
    using first by blast
  have all: "\<forall>u \<rho> s. U = Fin u \<and> r = Fin \<rho> \<and> 0 < u \<and> 0 < \<rho> \<and> step U r n = Fin s \<longrightarrow>
       (\<exists>M. maxPrice U r = Fin M \<and>
          (\<forall>i j. i \<le> j \<and> j < length ?g \<longrightarrow> fle (?g ! i) (?g ! j)) \<and>
          (\<forall>l. last ?g = Fin l \<longrightarrow>
             \<bar>l - M\<bar> \<le> M / 2 ^ 50 + of_int n / 2 ^ 1073 \<and>
             (n \<le> 2 ^ 50 \<and> M / 2 ^ 49 + 1 / 2 ^ 1072 \<le> s \<longrightarrow>
                (\<forall>i j. i < j \<and> j < length ?g \<longrightarrow> flt (?g ! i) (?g ! j)))))"
    by (intro allI impI) (rule ext)
  have dom: "\<forall>u \<rho>. U = Fin u \<and> r = Fin \<rho> \<and> 0 < u \<and> u \<le> 2 ^ 1000 \<and> 0 < \<rho> \<and> \<rho> \<le> 1000 \<longrightarrow>
       (\<exists>s l. step U r n = Fin s \<and> last ?g = Fin l)"
  proof (intro allI impI)
    fix u \<rho>
    assume H: "U = Fin u \<and> r = Fin \<rho> \<and> 0 < u \<and> u \<le> 2 ^ 1000 \<and> 0 < \<rho> \<and> \<rho> \<le> 1000"
    then have U: "U = Fin u" and r: "r = Fin \<rho>" and u: "0 < u" "u \<le> 2 ^ 1000"
      and p: "0 < \<rho>" "\<rho> \<le> 1000" by auto
    from grid_finite [OF u p assms] obtain s l where
      st: "step (Fin u) (Fin \<rho>) n = Fin s"
      and l: "fadd (minPrice (Fin u) (Fin \<rho>)) (fmul (Fin s) (Fin (of_int (n - 1)))) = Fin l"
      by blast
    have ne: "?g \<noteq> []" using pos by simp
    have lastn: "last ?g = ?g ! (length ?g - 1)" by (rule last_conv_nth [OF ne])
    have last1: "length ?g - 1 < length ?g" using pos by simp
    have "int (length ?g - 1) = n - 1" using len pos by linarith
    then have "(of_nat (length ?g - 1) :: rat) = of_int (n - 1)"
      by (metis of_int_of_nat_eq)
    with nth [OF last1] lastn
    have "last ?g = fadd (minPrice U r) (fmul (step U r n) (Fin (of_int (n - 1))))" by (simp only:)
    then have "last ?g = Fin l" using l by (simp only: U r st)
    with st show "\<exists>s l. step U r n = Fin s \<and> last ?g = Fin l" by (auto simp only: U r)
  qed
  show ?thesis
    by (rule exI [of _ ?g]) (intro conjI g len nthall f all dom)
qed

theorem C1_price_range_witness:
  "(2::int) \<le> 50 \<and> (50::int) \<le> 2 ^ 53 \<and> (0::rat) < 1 \<and> (0::rat) < 100 \<and>
   (1::rat) \<le> 2 ^ 1000 \<and> (100::rat) \<le> 1000 \<and>
   step (Fin 1) (Fin 100) 50 = Fin (5882252574524729 / 144115188075855872) \<and>
   maxPrice (Fin 1) (Fin 100) = Fin 2 \<and>
   (50::int) \<le> 2 ^ 50 \<and>
   (2::rat) / 2 ^ 49 + 1 / 2 ^ 1072 \<le> 5882252574524729 / 144115188075855872 \<and>
   (\<exists>g. calculate_price_range (Fin 1) (Fin 100) 50 = Inr g \<and> int (length g) = 50 \<and>
      g ! 0 = minPrice (Fin 1) (Fin 100) \<and>
      last g = Fin (9007199254740991 / 4503599627370496) \<and>
      fle (g ! 0) (g ! 1) \<and> flt (g ! 0) (g ! 49) \<and>
      \<bar>9007199254740991 / 4503599627370496 - 2\<bar> \<le> (2::rat) / 2 ^ 50 + of_int 50 / 2 ^ 1073)"
proof -
  have n: "(2::int) \<le> 50" "(50::int) \<le> 2 ^ 53" by simp_all
  have pos: "(0::rat) < 1" "(0::rat) < 100" by simp_all
  have dom: "(1::rat) \<le> 2 ^ 1000" "(100::rat) \<le> 1000" by simp_all
  have st: "step (Fin 1) (Fin 100) 50 = Fin (5882252574524729 / 144115188075855872)"
    by (rule grid_1_100)
  have mx: "maxPrice (Fin 1) (Fin 100) = Fin 2" by (rule grid_1_100)
  have n50: "(50::int) \<le> 2 ^ 50" by simp
  have "(2::rat) / 2 ^ 49 + 1 / 2 ^ 49 \<le> 5882252574524729 / 144115188075855872" by simp
  with tiny_le
  have c: "(2::rat) / 2 ^ 49 + 1 / 2 ^ 1072 \<le> 5882252574524729 / 144115188075855872"
    by linarith
  from C1_price_range [OF n, of "Fin 1" "Fin 100"] obtain g where
    g: "calculate_price_range (Fin 1) (Fin 100) 50 = Inr g" and len: "int (length g) = 50"
    and f: "(\<exists>s. step (Fin 1) (Fin 100) 50 = Fin s) \<longrightarrow> g ! 0 = minPrice (Fin 1) (Fin 100)"
    and all: "\<forall>u \<rho> s. Fin 1 = Fin u \<and> Fin 100 = Fin \<rho> \<and> 0 < u \<and> 0 < \<rho> \<and>
         step (Fin 1) (Fin 100) 50 = Fin s \<longrightarrow>
       (\<exists>M. maxPrice (Fin 1) (Fin 100) = Fin M \<and>
          (\<forall>i j. i \<le> j \<and> j < length g \<longrightarrow> fle (g ! i) (g ! j)) \<and>
          (\<forall>l. last g = Fin l \<longrightarrow>
             \<bar>l - M\<bar> \<le> M / 2 ^ 50 + of_int 50 / 2 ^ 1073 \<and>
             ((50::int) \<le> 2 ^ 50 \<and> M / 2 ^ 49 + 1 / 2 ^ 1072 \<le> s \<longrightarrow>
                (\<forall>i j. i < j \<and> j < length g \<longrightarrow> flt (g ! i) (g ! j)))))"
    by (elim exE conjE)
  from f st have first: "g ! 0 = minPrice (Fin 1) (Fin 100)" by blast
  from last_1_100 g have l: "last g = Fin (9007199254740991 / 4503599627370496)" by simp
  from all [rule_format, of 1 100 "5882252574524729 / 144115188075855872"] pos st
  obtain M where M: "maxPrice (Fin 1) (Fin 100) = Fin M"
    and mono: "\<forall>i j. i \<le> j \<and> j < length g \<longrightarrow> fle (g ! i) (g ! j)"
    and lst: "\<forall>l. last g = Fin l \<longrightarrow>
             \<bar>l - M\<bar> \<le> M / 2 ^ 50 + of_int 50 / 2 ^ 1073 \<and>
             ((50::int) \<le> 2 ^ 50 \<and> M / 2 ^ 49 + 1 / 2 ^ 1072 \<le> 5882252574524729 / 144115188075855872 \<longrightarrow>
                (\<forall>i j. i < j \<and> j < length g \<longrightarrow> flt (g ! i) (g ! j)))"
    by blast
  from M mx have M2: "M = 2" by simp
  have lg: "length g = 50" using len by simp
  from mono lg have m01: "fle (g ! 0) (g ! 1)" by simp
  from lst [rule_format, OF l] have
    b: "\<bar>9007199254740991 / 4503599627370496 - 2\<bar> \<le> (2::rat) / 2 ^ 50 + of_int 50 / 2 ^ 1073"
    and s: "(50::int) \<le> 2 ^ 50 \<and> (2::rat) / 2 ^ 49 + 1 / 2 ^ 1072 \<le> 5882252574524729 / 144115188075855872 \<longrightarrow>
                (\<forall>i j. i < j \<and> j < length g \<longrightarrow> flt (g ! i) (g ! j))"
    unfolding M2 by blast+
  from s n50 c have "\<forall>i j. i < j \<and> j < length g \<longrightarrow> flt (g ! i) (g ! j)" by blast
  with lg have s049: "flt (g ! 0) (g ! 49)" by simp
  show ?thesis
    by (intro conjI exI [of _ g] n pos dom st mx n50 c g len first l m01 s049 b)
qed

section \<open>Custom multi-leg strategy\<close>

lemma leg_pnl_read: "leg_pnl sf U p leg = bindE (read_leg sf U leg) (\<lambda>l. Inr (legPnl p l))"
proof (cases "py_float sf (dict_get leg ''lotSize'' (PyInt 0))")
  case (Inl e)
  then show ?thesis by (simp add: leg_pnl_def read_leg_def Let_def)
next
  case lot: (Inr lot_size)
  show ?thesis
  proof (cases "leg ''type'' = Some (PyStr ''FUT'')")
    case True
    with lot show ?thesis
      by (cases "py_float sf (dict_get leg ''entryPrice'' (PyFloat U))")
        (simp_all add: leg_pnl_def read_leg_def read_action_def Let_def)
  next
    case False
    with lot show ?thesis
      by (cases "py_float sf (dict_get leg ''strike'' (PyFloat U))";
          cases "py_float sf (dict_get leg ''premium'' (PyInt 0))")
        (simp_all add: leg_pnl_def read_leg_def read_action_def Let_def)
  qed
qed

lemma total_read:
  "foldE (\<lambda>total_pnl leg. bindE (leg_pnl sf U p leg) (\<lambda>l. Inr (fadd total_pnl l))) t legs =
   bindE (mapE (read_leg sf U) legs) (\<lambda>ls. Inr (foldl fadd t (map (legPnl p) ls)))"
proof (induction legs arbitrary: t)
  case Nil then show ?case by simp
next
  case (Cons leg legs)
  show ?case
  proof (cases "read_leg sf U leg")
    case (Inl e) then show ?thesis by (simp add: leg_pnl_read)
  next
    case (Inr l)
    show ?thesis
    proof (cases "mapE (read_leg sf U) legs")
      case (Inl e) with Inr Cons.IH show ?thesis by (simp add: leg_pnl_read)
    next
      case r: (Inr ls) with Inr Cons.IH show ?thesis by (simp add: leg_pnl_read)
    qed
  qed
qed

lemma foldE_append_map:
  "foldE (\<lambda>acc x. Inr (acc @ [g x])) ys xs = Inr (ys @ map g xs)"
  by (induction xs arbitrary: ys) simp_all

lemma calculate_custom_strategy_read:
  "calculate_custom_strategy sf legs U r =
     bindE (mapE (read_leg sf U) legs) (\<lambda>ls.
       Inr (map (\<lambda>p. \<lparr>price = py_round2 p,
                       pnl = py_round2 (foldl fadd (Fin 0) (map (legPnl p) ls))\<rparr>) (grid U r)))"
proof (cases "mapE (read_leg sf U) legs")
  case (Inl e)
  have "grid U r \<noteq> []" using length_grid [of U r] by (cases "grid U r") simp_all
  then obtain p ps where "grid U r = p # ps" by (cases "grid U r") simp_all
  with Inl show ?thesis
    by (simp add: calculate_custom_strategy_def calculate_price_range_grid total_read)
next
  case (Inr ls)
  then show ?thesis
    by (simp add: calculate_custom_strategy_def calculate_price_range_grid total_read foldE_append_map)
qed

lemma hd_grid: "hd (grid U r) = fadd (minPrice U r) (fmul (step U r 50) (Fin 0))"
  by (simp add: grid_def upto_rec1 [of 0 49])

lemma grid_nonempty: "grid U r \<noteq> []"
  using length_grid [of U r] by (cases "grid U r") simp_all

lemma rhe_numeral [simp]: "rhe (numeral n) = numeral n"
  using rhe_of_int [of "numeral n"] by simp

lemma py_round2_zero [simp]: "py_round2 (Fin 0) = Fin 0"
  by simp

lemma py_round2_one [simp]: "py_round2 (Fin 1) = Fin 1"
  by simp

lemma fl_2_60: "fl (1152921504606846976) = Fin (1152921504606846976)"
proof -
  have "fl (1152921504606846976) = Fin (of_int 4503599627370496 * 2 powi 8)"
    by (rule fl_eval [where k = "60"]) (simp_all add: power_int_minus_divide)
  then show ?thesis by (simp add: power_int_minus_divide)
qed

lemma fl_neg_2_60: "fl (- 1152921504606846976) = Fin ((- 1152921504606846976))"
proof -
  have "fl (- 1152921504606846976) = Fin (of_int (- 4503599627370496) * 2 powi 8)"
    by (rule fl_eval [where k = "60"]) (simp_all add: power_int_minus_divide)
  then show ?thesis by (simp add: power_int_minus_divide)
qed

lemma fl_2_60_plus_1: "fl (1152921504606846977) = Fin (1152921504606846976)"
proof -
  have "fl (1152921504606846977) = Fin (of_int 4503599627370496 * 2 powi 8)"
    by (rule fl_eval [where k = "60"]) (simp_all add: power_int_minus_divide)
  then show ?thesis by (simp add: power_int_minus_divide)
qed

lemma hd_grid_1_100: "hd (grid (Fin 1) (Fin 100)) = Fin 0"
  by (simp add: hd_grid grid_1_100)

lemma read_example_legs:
  "read_leg sf U example_leg_A = Inr (FUT SELL (Fin 1) (Fin 1152921504606846976))"
  "read_leg sf U example_leg_B = Inr (FUT BUY (Fin 1) (Fin 1152921504606846976))"
  "read_leg sf U example_leg_C = Inr (FUT SELL (Fin 1) (Fin 1))"
  by (simp_all add: read_leg_def read_action_def dict_get_def example_leg_A_def example_leg_B_def
      example_leg_C_def int_to_float_small)

lemma example_sums:
  "foldl fadd (Fin 0) (map (legPnl (Fin 0))
     [FUT SELL (Fin 1) (Fin 1152921504606846976), FUT BUY (Fin 1) (Fin 1152921504606846976),
      FUT SELL (Fin 1) (Fin 1)]) = Fin 1"
  "foldl fadd (Fin 0) (map (legPnl (Fin 0))
     [FUT SELL (Fin 1) (Fin 1), FUT SELL (Fin 1) (Fin 1152921504606846976),
      FUT BUY (Fin 1) (Fin 1152921504606846976)]) = Fin 0"
  by (simp_all add: fsub_def fl_2_60 fl_neg_2_60 fl_2_60_plus_1)

lemma custom_order_example:
  "map_sum id hd (calculate_custom_strategy example_parse [example_leg_A, example_leg_B, example_leg_C]
       (Fin 1) (Fin 100)) = Inr \<lparr>price = Fin 0, pnl = Fin 1\<rparr>"
  "map_sum id hd (calculate_custom_strategy example_parse [example_leg_C, example_leg_A, example_leg_B]
       (Fin 1) (Fin 100)) = Inr \<lparr>price = Fin 0, pnl = Fin 0\<rparr>"
  by (simp_all add: calculate_custom_strategy_read read_example_legs hd_map grid_nonempty
      hd_grid_1_100 example_sums del: foldl.simps list.map legPnl.simps)

lemma calculate_custom_strategy_Nil:
  "calculate_custom_strategy sf [] U r = Inr (map (\<lambda>p. \<lparr>price = py_round2 p, pnl = Fin 0\<rparr>) (grid U r))"
  by (simp add: calculate_custom_strategy_read)

text \<open>
  \<^bold>\<open>C5\<close>, as the code has it. The dispatcher returns the empty list for
  \<open>custom-strategy\<close> when the legs are absent or the list is empty. The evaluator itself
  has no such case: called with an empty list it returns the 50 grid points, each with
  \<open>pnl = 0\<close>.
\<close>

theorem C5_empty_legs:
  "calculate_payoff sf ''custom-strategy'' P0 U r None = Inr [] \<and>
   calculate_payoff sf ''custom-strategy'' P0 U r (Some []) = Inr [] \<and>
   calculate_custom_strategy sf [] U r =
     Inr (map (\<lambda>p. \<lparr>price = py_round2 p, pnl = Fin 0\<rparr>) (grid U r)) \<and>
   length (grid U r) = 50"
  by (simp add: calculate_payoff_def calculate_custom_strategy_Nil)

theorem C5_evaluator_counterexample:
  "map_sum id length (calculate_custom_strategy example_parse [] (Fin 18000) (Fin 30)) = Inr 50"
  by (simp add: calculate_custom_strategy_Nil)

lemma fsum_error:
  assumes "foldl fadd (Fin 0) vs = Fin t" and "length vs \<le> 2 ^ 52"
  shows "\<exists>xs. vs = map Fin xs \<and>
    \<bar>t - sum_list xs\<bar> \<le> 2 * of_nat (length xs) * (1 / 2 ^ 53 * sum_list (map abs xs) + 1 / 2 ^ 1075)"
  using assms
proof (induction vs arbitrary: t rule: rev_induct)
  case Nil
  then show ?case by simp
next
  case (snoc v vs)
  define \<epsilon> :: rat where "\<epsilon> = 1 / 2 ^ 53"
  define \<eta> :: rat where "\<eta> = 1 / 2 ^ 1075"
  have e0: "0 \<le> \<epsilon>" by (simp add: \<epsilon>_def)
  have h0: "0 \<le> \<eta>" unfolding \<eta>_def by (rule divide_nonneg_pos, simp, rule zero_less_power, simp)
  from snoc.prems(1) have "fadd (foldl fadd (Fin 0) vs) v = Fin t" by simp
  from fadd_eq_Fin [OF this] obtain t0 x where
    t0: "foldl fadd (Fin 0) vs = Fin t0" and v: "v = Fin x" and t: "fl (t0 + x) = Fin t" by blast
  from snoc.prems(2) have len: "length vs \<le> 2 ^ 52" and len1: "length vs + 1 \<le> 2 ^ 52" by simp_all
  from snoc.IH [OF t0 len] obtain xs0 where
    vs: "vs = map Fin xs0"
    and E0: "\<bar>t0 - sum_list xs0\<bar> \<le> 2 * of_nat (length xs0) * (\<epsilon> * sum_list (map abs xs0) + \<eta>)"
    unfolding \<epsilon>_def \<eta>_def by blast
  define k :: rat where "k = of_nat (length xs0)"
  define A0 where "A0 = sum_list (map abs xs0)"
  define A where "A = A0 + \<bar>x\<bar>"
  define C where "C = \<epsilon> * A + \<eta>"
  define E where "E = \<bar>t0 - sum_list xs0\<bar>"
  have k0: "0 \<le> k" by (simp add: k_def)
  have A00: "0 \<le> A0" unfolding A0_def by (rule sum_list_nonneg) auto
  have AA: "A0 \<le> A" by (simp add: A_def)
  have C0: "0 \<le> C" using e0 h0 A00 AA by (simp add: C_def)
  have "\<epsilon> * A0 \<le> \<epsilon> * A" by (rule mult_left_mono [OF AA e0])
  then have "\<epsilon> * A0 + \<eta> \<le> C" by (simp add: C_def)
  then have "2 * k * (\<epsilon> * A0 + \<eta>) \<le> 2 * k * C" using k0 by (intro mult_left_mono) simp_all
  with E0 have E: "E \<le> 2 * k * C" by (simp add: E_def k_def A0_def)
  have "length xs0 \<le> 2 ^ 52" using len vs by simp
  then have "(of_nat (length xs0) :: rat) \<le> of_nat (2 ^ 52)" by (simp only: of_nat_le_iff)
  then have "k \<le> 2 ^ 52" by (simp add: k_def)
  then have "2 * k * \<epsilon> \<le> 2 * 2 ^ 52 * \<epsilon>" using e0 by (intro mult_right_mono mult_left_mono) simp_all
  also have "\<dots> = 1" by (simp add: \<epsilon>_def)
  finally have ke: "2 * k * \<epsilon> \<le> 1" .
  have "\<epsilon> * E \<le> \<epsilon> * (2 * k * C)" by (rule mult_left_mono [OF E e0])
  also have "\<dots> = (2 * k * \<epsilon>) * C" by (simp add: mult_ac)
  also have "\<dots> \<le> 1 * C" by (rule mult_right_mono [OF ke C0])
  finally have eE: "\<epsilon> * E \<le> C" by simp
  have sumabs: "\<bar>sum_list xs0\<bar> \<le> A0" unfolding A0_def by (rule sum_list_abs)
  have "\<bar>t0 + x\<bar> \<le> A + E" using sumabs unfolding A_def E_def by linarith
  then have "\<epsilon> * \<bar>t0 + x\<bar> \<le> \<epsilon> * (A + E)" by (rule mult_left_mono [OF _ e0])
  then have b1: "\<epsilon> * \<bar>t0 + x\<bar> \<le> \<epsilon> * A + \<epsilon> * E" by (simp add: algebra_simps)
  have b0: "\<bar>t - (t0 + x)\<bar> \<le> \<epsilon> * \<bar>t0 + x\<bar> + \<eta>"
    unfolding \<epsilon>_def \<eta>_def by (rule fl_err [OF t])
  have b2: "\<bar>t - (t0 + x)\<bar> \<le> \<epsilon> * A + \<epsilon> * E + \<eta>"
    by (rule order_trans [OF b0 add_right_mono [OF b1]])
  have "\<bar>t - (sum_list xs0 + x)\<bar> \<le> \<bar>t - (t0 + x)\<bar> + E" unfolding E_def by linarith
  with b2 eE E have "\<bar>t - (sum_list xs0 + x)\<bar> \<le> C + C + 2 * k * C" unfolding C_def by linarith
  also have "\<dots> = 2 * (k + 1) * C" by (simp add: algebra_simps)
  finally have fin: "\<bar>t - (sum_list xs0 + x)\<bar> \<le> 2 * (k + 1) * C" .
  have "vs @ [v] = map Fin (xs0 @ [x])" by (simp add: vs v)
  moreover have "\<bar>t - sum_list (xs0 @ [x])\<bar> \<le> 2 * of_nat (length (xs0 @ [x])) *
      (\<epsilon> * sum_list (map abs (xs0 @ [x])) + \<eta>)"
    using fin by (simp add: k_def C_def A_def A0_def algebra_simps)
  ultimately show ?case unfolding \<epsilon>_def \<eta>_def by blast
qed

lemma mapE_Inr_all:
  "mapE f xs = Inr ys \<Longrightarrow> ys = map (\<lambda>x. projr (f x)) xs \<and> (\<forall>x \<in> set xs. f x = Inr (projr (f x)))"
proof (induction xs arbitrary: ys)
  case Nil
  then show ?case by simp
next
  case (Cons x xs)
  from Cons.prems obtain y ys' where y: "f x = Inr y" and ys': "mapE f xs = Inr ys'" and ys: "ys = y # ys'"
    by (auto simp: bindE_eq_Inr)
  from Cons.IH [OF ys'] y ys show ?case by simp
qed

lemma mapE_mset:
  assumes "mapE f xs = Inr ys" and "mset xs' = mset xs"
  shows "\<exists>ys'. mapE f xs' = Inr ys' \<and> mset ys' = mset ys"
proof -
  from mapE_Inr_all [OF assms(1)] have ys: "ys = map (\<lambda>x. projr (f x)) xs"
    and ok: "\<forall>x \<in> set xs. f x = Inr (projr (f x))" by simp_all
  have "set xs' = set xs" using assms(2) by (rule mset_eq_setD)
  with ok have "mapE f xs' = Inr (map (\<lambda>x. projr (f x)) xs')" by (intro mapE_Inr) simp
  moreover have "mset (map (\<lambda>x. projr (f x)) xs') = mset ys" using assms(2) by (simp add: ys)
  ultimately show ?thesis by blast
qed

lemma mset_map_Fin:
  assumes "mset (map Fin xs') = mset (map Fin xs)"
  shows "mset xs' = mset xs"
proof -
  define g where "g = (\<lambda>v. case v of Fin x \<Rightarrow> x | _ \<Rightarrow> (0::rat))"
  have "image_mset g (mset (map Fin zs)) = mset zs" for zs
    by (simp add: multiset.map_comp comp_def g_def)
  with assms show ?thesis by metis
qed

lemma perm_totals:
  assumes p: "mset ls' = mset ls"
    and t: "foldl fadd (Fin 0) (map (legPnl p) ls) = Fin t"
    and t': "foldl fadd (Fin 0) (map (legPnl p) ls') = Fin t'"
    and n: "length ls \<le> 2 ^ 52"
  shows "\<exists>xs. map (legPnl p) ls = map Fin xs \<and>
     \<bar>t - sum_list xs\<bar> \<le> 2 * of_nat (length xs) * (sum_list (map abs xs) / 2 ^ 53 + 1 / 2 ^ 1075) \<and>
     \<bar>t - t'\<bar> \<le> 4 * of_nat (length xs) * (sum_list (map abs xs) / 2 ^ 53 + 1 / 2 ^ 1075)"
proof -
  define \<eta> :: rat where "\<eta> = 1 / 2 ^ 1075"
  have n': "length ls' \<le> 2 ^ 52" using n mset_eq_length [OF p] by simp
  from fsum_error [OF t] n obtain xs where
    xs: "map (legPnl p) ls = map Fin xs"
    and e: "\<bar>t - sum_list xs\<bar> \<le> 2 * of_nat (length xs) * (1 / 2 ^ 53 * sum_list (map abs xs) + \<eta>)"
    unfolding \<eta>_def by auto
  from fsum_error [OF t'] n' obtain xs' where
    xs': "map (legPnl p) ls' = map Fin xs'"
    and e': "\<bar>t' - sum_list xs'\<bar> \<le> 2 * of_nat (length xs') * (1 / 2 ^ 53 * sum_list (map abs xs') + \<eta>)"
    unfolding \<eta>_def by auto
  have "mset (map Fin xs') = mset (map Fin xs)"
    using p by (simp flip: xs xs')
  then have m: "mset xs' = mset xs" by (rule mset_map_Fin)
  have s: "sum_list xs' = sum_list xs" using m by (metis sum_mset_sum_list)
  have "mset (map abs xs') = mset (map abs xs)" using m by simp
  then have a: "sum_list (map abs xs') = sum_list (map abs xs)" by (metis sum_mset_sum_list)
  have l: "length xs' = length xs" using m by (rule mset_eq_length)
  define B where "B = 2 * of_nat (length xs) * (1 / 2 ^ 53 * sum_list (map abs xs) + \<eta>)"
  have eB: "\<bar>t - sum_list xs\<bar> \<le> B" using e by (simp only: B_def)
  have eB': "\<bar>t' - sum_list xs\<bar> \<le> B" using e' by (simp only: B_def s a l)
  have "\<bar>t - t'\<bar> \<le> B + B" using eB eB' by linarith
  also have "B + B = 4 * of_nat (length xs) * (1 / 2 ^ 53 * sum_list (map abs xs) + \<eta>)"
    by (simp add: B_def)
  finally have d: "\<bar>t - t'\<bar> \<le> 4 * of_nat (length xs) * (1 / 2 ^ 53 * sum_list (map abs xs) + \<eta>)" .
  have c: "1 / 2 ^ 53 * sum_list (map abs xs) = sum_list (map abs xs) / 2 ^ 53" by simp
  from xs e d show ?thesis unfolding c \<eta>_def by blast
qed

text \<open>
  \<^bold>\<open>C4\<close>, as the code has it. When every leg can be read, the evaluator returns one point
  per grid price whose \<open>pnl\<close> is the rounded float sum of the legs' \<open>legPnl\<close>, added
  from left to right starting from 0; a missing \<open>entryPrice\<close> or \<open>strike\<close> is read as
  the underlying price and a missing \<open>premium\<close> as 0. A permutation of the legs can be
  read as well, and reads as the permuted legs. Float addition is not associative, so the
  total may depend on the order of the legs, but only within rounding: with \<open>n\<close> legs
  whose P&L at a price are the numbers \<open>xs\<close>, a finite total differs from the exact sum
  of \<open>xs\<close> by at most \<open>2 n (sum |xs| / 2^53 + 2^-1075)\<close>, and the totals of two orders
  differ by at most twice that.
\<close>

theorem C4_custom_sum:
  assumes "mapE (read_leg sf U) legs = Inr ls"
  shows "calculate_custom_strategy sf legs U r =
      Inr (map (\<lambda>p. \<lparr>price = py_round2 p,
                      pnl = py_round2 (foldl fadd (Fin 0) (map (legPnl p) ls))\<rparr>) (grid U r)) \<and>
    read_leg sf U [''type'' \<mapsto> PyStr ''FUT'', ''action'' \<mapsto> PyStr ''BUY'', ''lotSize'' \<mapsto> PyFloat n]
      = Inr (FUT BUY n U) \<and>
    read_leg sf U [''type'' \<mapsto> PyStr ''FUT'', ''action'' \<mapsto> PyStr ''SELL'', ''lotSize'' \<mapsto> PyFloat n]
      = Inr (FUT SELL n U) \<and>
    read_leg sf U [''type'' \<mapsto> PyStr ''CE'', ''action'' \<mapsto> PyStr ''BUY'', ''lotSize'' \<mapsto> PyFloat n]
      = Inr (OPT CE BUY n U (Fin 0)) \<and>
    read_leg sf U [''type'' \<mapsto> PyStr ''PE'', ''action'' \<mapsto> PyStr ''SELL'', ''lotSize'' \<mapsto> PyFloat n]
      = Inr (OPT PE SELL n U (Fin 0)) \<and>
    (\<forall>legs'. mset legs' = mset legs \<longrightarrow>
       (\<exists>ls'. mapE (read_leg sf U) legs' = Inr ls' \<and> mset ls' = mset ls \<and>
          (\<forall>p t t'. foldl fadd (Fin 0) (map (legPnl p) ls) = Fin t \<and>
                    foldl fadd (Fin 0) (map (legPnl p) ls') = Fin t' \<and> length ls \<le> 2 ^ 52 \<longrightarrow>
             (\<exists>xs. map (legPnl p) ls = map Fin xs \<and>
                \<bar>t - sum_list xs\<bar> \<le>
                  2 * of_nat (length xs) * (sum_list (map abs xs) / 2 ^ 53 + 1 / 2 ^ 1075) \<and>
                \<bar>t - t'\<bar> \<le>
                  4 * of_nat (length xs) * (sum_list (map abs xs) / 2 ^ 53 + 1 / 2 ^ 1075)))))"
proof -
  have 1: "calculate_custom_strategy sf legs U r =
      Inr (map (\<lambda>p. \<lparr>price = py_round2 p,
                      pnl = py_round2 (foldl fadd (Fin 0) (map (legPnl p) ls))\<rparr>) (grid U r))"
    using assms by (simp add: calculate_custom_strategy_read)
  have 2: "read_leg sf U [''type'' \<mapsto> PyStr ''FUT'', ''action'' \<mapsto> PyStr ''BUY'', ''lotSize'' \<mapsto> PyFloat n]
      = Inr (FUT BUY n U)"
    and 3: "read_leg sf U [''type'' \<mapsto> PyStr ''FUT'', ''action'' \<mapsto> PyStr ''SELL'', ''lotSize'' \<mapsto> PyFloat n]
      = Inr (FUT SELL n U)"
    and 4: "read_leg sf U [''type'' \<mapsto> PyStr ''CE'', ''action'' \<mapsto> PyStr ''BUY'', ''lotSize'' \<mapsto> PyFloat n]
      = Inr (OPT CE BUY n U (Fin 0))"
    and 5: "read_leg sf U [''type'' \<mapsto> PyStr ''PE'', ''action'' \<mapsto> PyStr ''SELL'', ''lotSize'' \<mapsto> PyFloat n]
      = Inr (OPT PE SELL n U (Fin 0))"
    by (simp_all add: read_leg_def read_action_def dict_get_def int_to_float_zero)
  have 6: "\<forall>legs'. mset legs' = mset legs \<longrightarrow>
       (\<exists>ls'. mapE (read_leg sf U) legs' = Inr ls' \<and> mset ls' = mset ls \<and>
          (\<forall>p t t'. foldl fadd (Fin 0) (map (legPnl p) ls) = Fin t \<and>
                    foldl fadd (Fin 0) (map (legPnl p) ls') = Fin t' \<and> length ls \<le> 2 ^ 52 \<longrightarrow>
             (\<exists>xs. map (legPnl p) ls = map Fin xs \<and>
                \<bar>t - sum_list xs\<bar> \<le>
                  2 * of_nat (length xs) * (sum_list (map abs xs) / 2 ^ 53 + 1 / 2 ^ 1075) \<and>
                \<bar>t - t'\<bar> \<le>
                  4 * of_nat (length xs) * (sum_list (map abs xs) / 2 ^ 53 + 1 / 2 ^ 1075))))"
  proof (intro allI impI)
    fix legs' assume "mset legs' = mset legs"
    from mapE_mset [OF assms this] obtain ls' where
      r: "mapE (read_leg sf U) legs' = Inr ls'" and m: "mset ls' = mset ls" by blast
    have "\<exists>xs. map (legPnl p) ls = map Fin xs \<and>
                \<bar>t - sum_list xs\<bar> \<le>
                  2 * of_nat (length xs) * (sum_list (map abs xs) / 2 ^ 53 + 1 / 2 ^ 1075) \<and>
                \<bar>t - t'\<bar> \<le>
                  4 * of_nat (length xs) * (sum_list (map abs xs) / 2 ^ 53 + 1 / 2 ^ 1075)"
      if "foldl fadd (Fin 0) (map (legPnl p) ls) = Fin t \<and>
          foldl fadd (Fin 0) (map (legPnl p) ls') = Fin t' \<and> length ls \<le> 2 ^ 52" for p t t'
      using that by (intro perm_totals [OF m]) simp_all
    with r m show "\<exists>ls'. mapE (read_leg sf U) legs' = Inr ls' \<and> mset ls' = mset ls \<and>
          (\<forall>p t t'. foldl fadd (Fin 0) (map (legPnl p) ls) = Fin t \<and>
                    foldl fadd (Fin 0) (map (legPnl p) ls') = Fin t' \<and> length ls \<le> 2 ^ 52 \<longrightarrow>
             (\<exists>xs. map (legPnl p) ls = map Fin xs \<and>
                \<bar>t - sum_list xs\<bar> \<le>
                  2 * of_nat (length xs) * (sum_list (map abs xs) / 2 ^ 53 + 1 / 2 ^ 1075) \<and>
                \<bar>t - t'\<bar> \<le>
                  4 * of_nat (length xs) * (sum_list (map abs xs) / 2 ^ 53 + 1 / 2 ^ 1075)))"
      by blast
  qed
  show ?thesis by (intro conjI 1 2 3 4 5 6)
qed

theorem C4_custom_sum_witness:
  "mapE (read_leg example_parse (Fin 1)) [example_leg_A, example_leg_B, example_leg_C] =
     Inr [FUT SELL (Fin 1) (Fin 1152921504606846976), FUT BUY (Fin 1) (Fin 1152921504606846976),
          FUT SELL (Fin 1) (Fin 1)] \<and>
   mset [example_leg_C, example_leg_A, example_leg_B] = mset [example_leg_A, example_leg_B, example_leg_C] \<and>
   mapE (read_leg example_parse (Fin 1)) [example_leg_C, example_leg_A, example_leg_B] =
     Inr [FUT SELL (Fin 1) (Fin 1), FUT SELL (Fin 1) (Fin 1152921504606846976),
          FUT BUY (Fin 1) (Fin 1152921504606846976)] \<and>
   foldl fadd (Fin 0) (map (legPnl (Fin 0))
     [FUT SELL (Fin 1) (Fin 1152921504606846976), FUT BUY (Fin 1) (Fin 1152921504606846976),
      FUT SELL (Fin 1) (Fin 1)]) = Fin 1 \<and>
   foldl fadd (Fin 0) (map (legPnl (Fin 0))
     [FUT SELL (Fin 1) (Fin 1), FUT SELL (Fin 1) (Fin 1152921504606846976),
      FUT BUY (Fin 1) (Fin 1152921504606846976)]) = Fin 0 \<and>
   length [FUT SELL (Fin 1) (Fin 1152921504606846976), FUT BUY (Fin 1) (Fin 1152921504606846976),
      FUT SELL (Fin 1) (Fin 1)] \<le> 2 ^ 52 \<and>
   calculate_custom_strategy example_parse [example_leg_A, example_leg_B, example_leg_C] (Fin 1) (Fin 100) =
     Inr (map (\<lambda>p. \<lparr>price = py_round2 p,
                     pnl = py_round2 (foldl fadd (Fin 0) (map (legPnl p)
                       [FUT SELL (Fin 1) (Fin 1152921504606846976),
                        FUT BUY (Fin 1) (Fin 1152921504606846976),
                        FUT SELL (Fin 1) (Fin 1)]))\<rparr>) (grid (Fin 1) (Fin 100))) \<and>
   (\<exists>xs. map (legPnl (Fin 0)) [FUT SELL (Fin 1) (Fin 1152921504606846976),
              FUT BUY (Fin 1) (Fin 1152921504606846976), FUT SELL (Fin 1) (Fin 1)] = map Fin xs \<and>
      \<bar>1 - sum_list xs\<bar> \<le>
         2 * of_nat (length xs) * (sum_list (map abs xs) / 2 ^ 53 + 1 / 2 ^ 1075) \<and>
      \<bar>1 - 0\<bar> \<le> 4 * of_nat (length xs) * (sum_list (map abs xs) / 2 ^ 53 + 1 / 2 ^ 1075))"
proof -
  let ?ls = "[FUT SELL (Fin 1) (Fin 1152921504606846976), FUT BUY (Fin 1) (Fin 1152921504606846976),
          FUT SELL (Fin 1) (Fin 1)]"
  let ?ls' = "[FUT SELL (Fin 1) (Fin 1), FUT SELL (Fin 1) (Fin 1152921504606846976),
          FUT BUY (Fin 1) (Fin 1152921504606846976)]"
  have a: "mapE (read_leg example_parse (Fin 1)) [example_leg_A, example_leg_B, example_leg_C] = Inr ?ls"
    by (simp add: read_example_legs)
  have m: "mset [example_leg_C, example_leg_A, example_leg_B] = mset [example_leg_A, example_leg_B, example_leg_C]"
    by (simp add: add_mset_commute)
  have a': "mapE (read_leg example_parse (Fin 1)) [example_leg_C, example_leg_A, example_leg_B] = Inr ?ls'"
    by (simp add: read_example_legs)
  note t = example_sums(1) and t' = example_sums(2)
  have n: "length ?ls \<le> 2 ^ 52" by simp
  note T = C4_custom_sum [OF a, of "Fin 100"]
  from T have c: "calculate_custom_strategy example_parse [example_leg_A, example_leg_B, example_leg_C] (Fin 1) (Fin 100) =
     Inr (map (\<lambda>p. \<lparr>price = py_round2 p,
                     pnl = py_round2 (foldl fadd (Fin 0) (map (legPnl p) ?ls))\<rparr>) (grid (Fin 1) (Fin 100)))"
    by (rule conjunct1)
  from T m obtain ls' where
    r: "mapE (read_leg example_parse (Fin 1)) [example_leg_C, example_leg_A, example_leg_B] = Inr ls'"
    and b: "\<forall>p t t'. foldl fadd (Fin 0) (map (legPnl p) ?ls) = Fin t \<and>
                    foldl fadd (Fin 0) (map (legPnl p) ls') = Fin t' \<and> length ?ls \<le> 2 ^ 52 \<longrightarrow>
             (\<exists>xs. map (legPnl p) ?ls = map Fin xs \<and>
                \<bar>t - sum_list xs\<bar> \<le>
                  2 * of_nat (length xs) * (sum_list (map abs xs) / 2 ^ 53 + 1 / 2 ^ 1075) \<and>
                \<bar>t - t'\<bar> \<le>
                  4 * of_nat (length xs) * (sum_list (map abs xs) / 2 ^ 53 + 1 / 2 ^ 1075))"
    by blast
  from r a' have "ls' = ?ls'" by simp
  with b [rule_format, of "Fin 0" 1 0] t t' n
  have e: "\<exists>xs. map (legPnl (Fin 0)) ?ls = map Fin xs \<and>
      \<bar>1 - sum_list xs\<bar> \<le>
         2 * of_nat (length xs) * (sum_list (map abs xs) / 2 ^ 53 + 1 / 2 ^ 1075) \<and>
      \<bar>1 - 0\<bar> \<le> 4 * of_nat (length xs) * (sum_list (map abs xs) / 2 ^ 53 + 1 / 2 ^ 1075)"
    by blast
  show ?thesis by (intro conjI a m a' t t' n c e)
qed

text \<open>
  Three futures legs with lot size 1 on the grid of \<open>U = 1\<close>, \<open>range = 100\<close>, whose first
  price is 0: sell at \<open>2^60\<close>, buy at \<open>2^60\<close>, sell at 1. In this order the total at
  price 0 is \<open>(2^60 - 2^60) + 1 = 1\<close>; with the third leg first it is
  \<open>(1 + 2^60) - 2^60 = 0\<close>, since \<open>1 + 2^60\<close> rounds to \<open>2^60\<close>.
\<close>

theorem C4_leg_order_counterexample:
  "map_sum id hd (calculate_custom_strategy example_parse [example_leg_A, example_leg_B, example_leg_C]
       (Fin 1) (Fin 100)) = Inr \<lparr>price = Fin 0, pnl = Fin 1\<rparr> \<and>
   map_sum id hd (calculate_custom_strategy example_parse [example_leg_C, example_leg_A, example_leg_B]
       (Fin 1) (Fin 100)) = Inr \<lparr>price = Fin 0, pnl = Fin 0\<rparr>"
  by (simp only: custom_order_example simp_thms)


section \<open>Case analysis of a leg\<close>













end
